theory Spec2Isabelle
  imports Complex_Main
begin

section \<open>Data model\<close>

text \<open>
  The repository is two notebooks. Their own code is a variant registry (the
  dictionary \<^verbatim>\<open>models\<close>), two report functions over it
  (\<^verbatim>\<open>compare_modelsize\<close>, \<^verbatim>\<open>compare_benchmarks\<close>), the pruning cell
  that fills the registry, and the training driver \<^verbatim>\<open>train\<close>. Everything else
  is a call into a library (torch, torch.utils.benchmark, torch.nn.utils.prune,
  hypll). A library call is an operation taken as a parameter; where a property
  depends on what the library does, the library's documented behaviour is written
  out as a definition and marked as such.

  Python floats are an uninterpreted type \<open>'f\<close>: the float operations the code
  uses (\<open>0.0\<close>, \<open>+\<close>, \<open>/\<close>) are parameters, so no law of real arithmetic
  is assumed for them.
\<close>

datatype error = Error string

text \<open>
  A tensor: its shape, the byte size of one element (fixed by its dtype) and its
  elements in storage order.
\<close>

record 'a tensor =
  shape :: "nat list"
  element_size :: nat
  elems :: "'a list"

definition nelement :: "'a tensor \<Rightarrow> nat" where
  "nelement t = prod_list (shape t)"

text \<open>
  A module as \<^verbatim>\<open>named_modules()\<close> yields it: its class, its own parameters
  (\<^verbatim>\<open>_parameters\<close>), its own buffers (\<^verbatim>\<open>_buffers\<close>) and its plain tensor
  attributes. The three dictionaries are association lists in insertion order.
\<close>

datatype module_kind = Conv2d | BatchNorm2d | Linear | OtherModule

record 'a module =
  kind :: module_kind
  params :: "(string \<times> 'a tensor) list"
  bufs :: "(string \<times> 'a tensor) list"
  attrs :: "(string \<times> 'a tensor) list"

type_synonym 'a model = "(string \<times> 'a module) list"

text \<open>
  \<^verbatim>\<open>model.parameters()\<close> and \<^verbatim>\<open>model.buffers()\<close> walk the modules in order.
  A tensor is a value here: no tensor is shared between two modules, as in the
  models the notebook builds.
\<close>

definition parameters :: "'a model \<Rightarrow> 'a tensor list" where
  "parameters model = concat (map (\<lambda>(_, md). map snd (params md)) model)"

definition buffers :: "'a model \<Rightarrow> 'a tensor list" where
  "buffers model = concat (map (\<lambda>(_, md). map snd (bufs md)) model)"

section \<open>The variant registry\<close>

text \<open>
  \<^verbatim>\<open>models = {"control": control_model}\<close> and \<^verbatim>\<open>models[label] = model\<close>.
  A Python dictionary keeps its keys in insertion order; assigning to a key that
  is present replaces the value where it stands. \<open>register\<close> is that assignment,
  \<open>dict_del\<close> is \<^verbatim>\<open>del d[k]\<close>, and iterating \<^verbatim>\<open>.items()\<close> reads the list
  from the front.
\<close>

fun register :: "'k \<Rightarrow> 'v \<Rightarrow> ('k \<times> 'v) list \<Rightarrow> ('k \<times> 'v) list" where
  "register label model [] = [(label, model)]"
| "register label model ((k, v) # rest) =
     (if k = label then (label, model) # rest else (k, v) # register label model rest)"

fun dict_del :: "'k \<Rightarrow> ('k \<times> 'v) list \<Rightarrow> ('k \<times> 'v) list" where
  "dict_del label [] = []"
| "dict_del label ((k, v) # rest) =
     (if k = label then rest else (k, v) # dict_del label rest)"

fun dict_get :: "('k \<times> 'v) list \<Rightarrow> 'k \<Rightarrow> 'v option" where
  "dict_get [] label = None"
| "dict_get ((k, v) # rest) label = (if k = label then Some v else dict_get rest label)"

text \<open>A sequence of registrations applied to a registry, oldest first.\<close>

fun register_all :: "('k \<times> 'v) list \<Rightarrow> ('k \<times> 'v) list \<Rightarrow> ('k \<times> 'v) list" where
  "register_all reg [] = reg"
| "register_all reg ((label, model) # ops) = register_all (register label model reg) ops"

text \<open>The distinct elements of a list in the order of their first occurrence.\<close>

fun first_seen :: "'k list \<Rightarrow> 'k list" where
  "first_seen [] = []"
| "first_seen (k # ks) = k # first_seen (filter (\<lambda>k'. k' \<noteq> k) ks)"

text \<open>The position of a label in a registry (the length of the registry if absent).\<close>

fun position :: "'k \<Rightarrow> ('k \<times> 'v) list \<Rightarrow> nat" where
  "position label [] = 0"
| "position label ((k, v) # rest) = (if k = label then 0 else Suc (position label rest))"

section \<open>The size report\<close>

text \<open>What a notebook cell writes to its output, as structured lines.\<close>

datatype ('r, 'f) line =
  SizeLine string 'f
| Table "(string \<times> 'r list) list"

text \<open>
  What happens during the benchmark cell, in order: the library calls the
  properties below speak about, and the lines printed.
\<close>

datatype ('a, 'r, 'f) event =
  ManualSeed nat
| Randn "'a tensor"
| Timed string "'a tensor"
| Raised string "'a tensor" error
| Print "('r, 'f) line"

text \<open>
  The state a cell of the pruning notebook runs in: torch's default random
  generator, the registry \<^verbatim>\<open>models\<close>, the list \<^verbatim>\<open>results\<close> local to
  \<^verbatim>\<open>compare_benchmarks\<close>, and the events so far, oldest first. Each label is
  bound to a model object of its own, so a model that a call writes in place is
  the new value at that label.
\<close>

record ('g, 'a, 'r, 'f) notebook =
  rng :: 'g
  models :: "(string \<times> 'a model) list"
  results :: "(string \<times> 'r) list"
  trace :: "('a, 'r, 'f) event list"

text \<open>
  The two accumulation loops of \<^verbatim>\<open>compare_modelsize\<close>:
  \<^verbatim>\<open>for param in model.parameters(): param_size += param.nelement() * param.element_size()\<close>.
\<close>

fun accumulate_size :: "nat \<Rightarrow> 'a tensor list \<Rightarrow> nat" where
  "accumulate_size acc [] = acc"
| "accumulate_size acc (t # ts) = accumulate_size (acc + nelement t * element_size t) ts"

text \<open>
  \<^verbatim>\<open>size_all_mb = (param_size + buffer_size) / 1024**2\<close>; \<open>truediv\<close> is Python's
  division of two integers, which returns a float.
\<close>

definition size_all_mb :: "(int \<Rightarrow> int \<Rightarrow> 'f) \<Rightarrow> 'a model \<Rightarrow> 'f" where
  "size_all_mb truediv model =
     (let param_size = accumulate_size 0 (parameters model);
          buffer_size = accumulate_size 0 (buffers model)
      in truediv (int (param_size + buffer_size)) (1024 ^ 2))"

text \<open>
  \<^verbatim>\<open>for model_name, model in models.items(): ... print(f"\"{model_name}\" size: {size_all_mb:.3f}MB")\<close>.
  The line carries the name and the float handed to the \<^verbatim>\<open>.3f\<close> formatter.
  \<open>size_lines\<close> is the loop, \<open>compare_modelsize\<close> the call in a cell.
\<close>

fun size_lines ::
  "(int \<Rightarrow> int \<Rightarrow> 'f) \<Rightarrow> (string \<times> 'a model) list \<Rightarrow> ('r, 'f) line list" where
  "size_lines truediv [] = []"
| "size_lines truediv ((model_name, model) # rest) =
     SizeLine model_name (size_all_mb truediv model) # size_lines truediv rest"

definition compare_modelsize ::
  "(int \<Rightarrow> int \<Rightarrow> 'f) \<Rightarrow> ('g, 'a, 'r, 'f) notebook \<Rightarrow> ('g, 'a, 'r, 'f) notebook" where
  "compare_modelsize truediv nb =
     nb\<lparr>trace := trace nb @ map Print (size_lines truediv (models nb))\<rparr>"

section \<open>The pruning cell\<close>

text \<open>
  \<^verbatim>\<open>torch.nn.utils.prune\<close> is a library. Its documented behaviour, which the
  notebook's own note repeats (``still just zeros parameters, and doesn't actually
  remove the zeroed dimensions''), is written out here. Pruning the parameter
  \<open>name\<close> of a module moves the parameter to \<open>name_orig\<close>, adds the buffer
  \<open>name_mask\<close> (ones, with zeros at the pruned units) and sets the plain
  attribute \<open>name\<close> to their elementwise product. Which units are pruned is the
  library's random choice (of the given \<^verbatim>\<open>amount\<close>): the predicate \<open>pruned\<close>.
\<close>

definition compute_mask :: "(nat \<Rightarrow> bool) \<Rightarrow> 'a tensor \<Rightarrow> ('a::{zero,one}) tensor" where
  "compute_mask pruned orig =
     orig\<lparr>elems := map (\<lambda>i. if pruned i then 0 else 1) [0..<length (elems orig)]\<rparr>"

definition apply_mask :: "('a::times) module \<Rightarrow> string \<Rightarrow> error + 'a tensor" where
  "apply_mask md name =
     (case dict_get (params md) (name @ ''_orig'') of
        None \<Rightarrow> Inl (Error ''AttributeError'')
      | Some orig \<Rightarrow>
          (case dict_get (bufs md) (name @ ''_mask'') of
             None \<Rightarrow> Inl (Error ''AttributeError'')
           | Some msk \<Rightarrow> Inr (orig\<lparr>elems := map2 (*) (elems orig) (elems msk)\<rparr>)))"

definition prune_apply ::
  "(nat \<Rightarrow> bool) \<Rightarrow> ('a::{zero,one,times}) module \<Rightarrow> string \<Rightarrow> error + 'a module" where
  "prune_apply pruned md name =
     (case dict_get (params md) name of
        None \<Rightarrow> Inl (Error ''AttributeError'')
      | Some orig \<Rightarrow>
          (let md1 = md\<lparr>params := register (name @ ''_orig'') orig (params md)\<rparr>;
               md2 = md1\<lparr>params := dict_del name (params md1)\<rparr>;
               md3 = md2\<lparr>bufs := register (name @ ''_mask'') (compute_mask pruned orig) (bufs md2)\<rparr>
           in case apply_mask md3 name of
                Inl e \<Rightarrow> Inl e
              | Inr weight \<Rightarrow> Inr (md3\<lparr>attrs := register name weight (attrs md3)\<rparr>)))"

text \<open>\<^verbatim>\<open>prune.random_unstructured(module, name="weight", amount=0.3)\<close>: single entries.\<close>

definition random_unstructured ::
  "(nat \<Rightarrow> bool) \<Rightarrow> ('a::{zero,one,times}) module \<Rightarrow> string \<Rightarrow> error + 'a module" where
  "random_unstructured pruned md name = prune_apply pruned md name"

text \<open>
  \<^verbatim>\<open>prune.random_structured(module, name="weight", amount=0.3, dim=0)\<close>: whole
  slices along the first dimension; the library refuses a tensor of fewer than two
  dimensions.
\<close>

definition random_structured ::
  "(nat \<Rightarrow> bool) \<Rightarrow> ('a::{zero,one,times}) module \<Rightarrow> string \<Rightarrow> error + 'a module" where
  "random_structured pruned md name =
     (case dict_get (params md) name of
        None \<Rightarrow> Inl (Error ''AttributeError'')
      | Some orig \<Rightarrow>
          if length (shape orig) \<le> 1 then Inl (Error ''ValueError'')
          else prune_apply (\<lambda>i. pruned (i div prod_list (tl (shape orig)))) md name)"

text \<open>
  \<^verbatim>\<open>prune.remove(module, 'weight')\<close>: the masked tensor becomes the parameter
  \<open>name\<close> again; \<open>name_orig\<close>, \<open>name_mask\<close> and the plain attribute go. The
  library raises when the parameter was not pruned before.
\<close>

definition remove :: "('a::times) module \<Rightarrow> string \<Rightarrow> error + 'a module" where
  "remove md name =
     (case apply_mask md name of
        Inl e \<Rightarrow> Inl (Error ''ValueError'')
      | Inr weight \<Rightarrow>
          (let md1 = md\<lparr>attrs := dict_del name (attrs md)\<rparr>;
               md2 = md1\<lparr>params := dict_del (name @ ''_orig'') (params md1)\<rparr>;
               md3 = md2\<lparr>bufs := dict_del (name @ ''_mask'') (bufs md2)\<rparr>
           in Inr (md3\<lparr>params := register name weight (params md3)\<rparr>)))"

text \<open>
  \<^verbatim>\<open>for _, module in model.named_modules(): if isinstance(module, nn.Conv2d): ...\<close>
  with the loop body \<open>body\<close>; an exception of the body ends the loop.
\<close>

fun prune_convs ::
  "(string \<Rightarrow> 'a module \<Rightarrow> error + 'a module) \<Rightarrow> 'a model \<Rightarrow> error + 'a model" where
  "prune_convs body [] = Inr []"
| "prune_convs body ((n, md) # rest) =
     (if kind md = Conv2d then
        (case body n md of
           Inl e \<Rightarrow> Inl e
         | Inr md' \<Rightarrow>
             (case prune_convs body rest of Inl e \<Rightarrow> Inl e | Inr rest' \<Rightarrow> Inr ((n, md') # rest')))
      else
        (case prune_convs body rest of Inl e \<Rightarrow> Inl e | Inr rest' \<Rightarrow> Inr ((n, md) # rest')))"

definition unstruct_body ::
  "(string \<Rightarrow> nat \<Rightarrow> bool) \<Rightarrow> string \<Rightarrow> ('a::{zero,one,times}) module \<Rightarrow> error + 'a module" where
  "unstruct_body choice n md =
     (case random_unstructured (choice n) md ''weight'' of
        Inl e \<Rightarrow> Inl e
      | Inr md' \<Rightarrow> remove md' ''weight'')"

definition struct_body ::
  "(string \<Rightarrow> nat \<Rightarrow> bool) \<Rightarrow> string \<Rightarrow> ('a::{zero,one,times}) module \<Rightarrow> error + 'a module" where
  "struct_body choice n md =
     (case random_structured (choice n) md ''weight'' of
        Inl e \<Rightarrow> Inl e
      | Inr md' \<Rightarrow> remove md' ''weight'')"

text \<open>
  The first cell, \<^verbatim>\<open>models = {"control": control_model}\<close>, and the pruning cell.
  \<open>base_model_init\<close> is the model every call of \<^verbatim>\<open>base_model_init()\<close> builds
  (resnet18 with the same pretrained weights); \<open>choice1\<close> and \<open>choice2\<close> are the
  random choices of the two pruning passes.
\<close>

definition first_cell :: "'a model \<Rightarrow> (string \<times> 'a model) list" where
  "first_cell base_model_init = [(''control'', base_model_init)]"

definition pruning_cell ::
  "('a::{zero,one,times}) model \<Rightarrow> (string \<Rightarrow> nat \<Rightarrow> bool) \<Rightarrow> (string \<Rightarrow> nat \<Rightarrow> bool) \<Rightarrow>
   (string \<times> 'a model) list \<Rightarrow> error + (string \<times> 'a model) list" where
  "pruning_cell base_model_init choice1 choice2 models0 =
     (case prune_convs (unstruct_body choice1) base_model_init of
        Inl e \<Rightarrow> Inl e
      | Inr torch_local_unstruct_model \<Rightarrow>
          (let models1 = register ''torch_local_unstruct'' torch_local_unstruct_model models0
           in case prune_convs (struct_body choice2) base_model_init of
                Inl e \<Rightarrow> Inl e
              | Inr torch_local_struct_model \<Rightarrow>
                  Inr (register ''torch_local_struct'' torch_local_struct_model models1)))"

text \<open>
  What \<^verbatim>\<open>nn.Conv2d\<close> guarantees of a module before it is pruned: its parameter
  names are distinct, it has a parameter \<open>weight\<close> of at least two dimensions,
  and neither \<open>weight_orig\<close> nor \<open>weight_mask\<close> is taken.
\<close>

definition prunable :: "'a module \<Rightarrow> bool" where
  "prunable md =
     (distinct (map fst (params md)) \<and>
      (case dict_get (params md) ''weight'' of None \<Rightarrow> False | Some w \<Rightarrow> 2 \<le> length (shape w)) \<and>
      dict_get (params md) ''weight_orig'' = None \<and>
      dict_get (bufs md) ''weight_mask'' = None)"

definition convs_prunable :: "'a model \<Rightarrow> bool" where
  "convs_prunable model = list_all (\<lambda>(n, md). if kind md = Conv2d then prunable md else True) model"

text \<open>
  The shape, element count and element byte size of the parameter \<open>p\<close> of the
  module \<open>n\<close> of a model, if there is one.
\<close>

definition param_layout :: "'a model \<Rightarrow> string \<Rightarrow> string \<Rightarrow> (nat list \<times> nat \<times> nat) option" where
  "param_layout model n p =
     (case dict_get model n of
        None \<Rightarrow> None
      | Some md \<Rightarrow>
          (case dict_get (params md) p of
             None \<Rightarrow> None
           | Some t \<Rightarrow> Some (shape t, nelement t, element_size t)))"

text \<open>
  Two modules agree in everything the size report reads: class, buffers, and for
  every parameter name the shape, element count and element byte size; with
  that, in the bytes of their parameters.
\<close>

definition same_sizes :: "'a module \<Rightarrow> 'a module \<Rightarrow> bool" where
  "same_sizes md md' =
     (kind md' = kind md \<and> bufs md' = bufs md \<and>
      (\<forall>p. map_option (\<lambda>t. (shape t, nelement t, element_size t)) (dict_get (params md') p) =
           map_option (\<lambda>t. (shape t, nelement t, element_size t)) (dict_get (params md) p)) \<and>
      (\<Sum>t\<leftarrow>map snd (params md'). nelement t * element_size t) =
      (\<Sum>t\<leftarrow>map snd (params md). nelement t * element_size t))"

text \<open>A small model for the examples: one convolution and one batch normalisation.\<close>

definition example_conv :: "int module" where
  "example_conv =
     \<lparr>kind = Conv2d,
      params = [(''weight'', \<lparr>shape = [2, 1, 1, 1], element_size = 4, elems = [3, 5]\<rparr>),
                (''bias'', \<lparr>shape = [2], element_size = 4, elems = [1, 1]\<rparr>)],
      bufs = [], attrs = []\<rparr>"

definition example_bn :: "int module" where
  "example_bn =
     \<lparr>kind = BatchNorm2d,
      params = [(''weight'', \<lparr>shape = [2], element_size = 4, elems = [1, 1]\<rparr>),
                (''bias'', \<lparr>shape = [2], element_size = 4, elems = [0, 0]\<rparr>)],
      bufs = [(''running_mean'', \<lparr>shape = [2], element_size = 4, elems = [0, 0]\<rparr>),
              (''running_var'', \<lparr>shape = [2], element_size = 4, elems = [1, 1]\<rparr>),
              (''num_batches_tracked'', \<lparr>shape = [], element_size = 8, elems = [0]\<rparr>)],
      attrs = []\<rparr>"

definition example_model :: "int model" where
  "example_model = [(''conv1'', example_conv), (''bn1'', example_bn)]"

section \<open>The benchmark comparator\<close>

text \<open>
  The library calls of \<^verbatim>\<open>compare_benchmarks\<close>. \<open>manual_seed\<close> sets the default
  generator to the state the seed determines; \<open>randn\<close> draws a tensor of the given
  dimensions and advances the generator; \<open>to_device\<close> is \<^verbatim>\<open>.to(device)\<close>;
  \<open>blocked_autorange\<close> is \<^verbatim>\<open>benchmark.Timer(stmt='model(x)', ...).blocked_autorange(min_run_time=1)\<close>:
  it runs \<^verbatim>\<open>model(x)\<close>, as often as the timer sees fit, and returns a
  measurement or the exception the model raised. The model and the tensor
  \<^verbatim>\<open>x\<close> are objects that the forward passes may write in place, and the passes
  may draw from the default generator: a timed call yields, with its outcome,
  the model, the tensor and the generator as the passes left them. The
  measurement is an opaque value; nothing below depends on the times in it.
\<close>

record ('g, 'a, 'r) timed =
  outcome :: "error + 'r"
  model_after :: "'a model"
  input_after :: "'a tensor"
  rng_after :: 'g

record ('g, 'a, 'r) torch =
  manual_seed :: "nat \<Rightarrow> 'g"
  randn :: "'g \<Rightarrow> nat list \<Rightarrow> 'a tensor \<times> 'g"
  to_device :: "'a tensor \<Rightarrow> 'a tensor"
  blocked_autorange :: "'g \<Rightarrow> 'a model \<Rightarrow> 'a tensor \<Rightarrow> ('g, 'a, 'r) timed"

text \<open>
  \<^verbatim>\<open>benchmark.Compare(results)\<close> is a library. It merges the measurements that
  have the same task (here: the same \<^verbatim>\<open>description\<close>, every other field of the
  task being the same constant) and prints one column per description, in the
  order of first occurrence; the saved output of the notebook shows one column
  per label after ten batches.
\<close>

definition merge :: "(string \<times> 'r) list \<Rightarrow> (string \<times> 'r list) list" where
  "merge measurements =
     map (\<lambda>d. (d, map snd (filter (\<lambda>(d', _). d' = d) measurements)))
       (first_seen (map fst measurements))"

text \<open>
  The inner loop, \<^verbatim>\<open>for modelname, model in models.items(): results.append(...)\<close>,
  over the items not yet visited. Every timer is given the one tensor object
  \<^verbatim>\<open>x\<close> of the batch, so a call gets the tensor as the calls before it left
  it; the events record the tensor as it was handed to the call. The loop returns
  the items as the calls left them and the exception that ended it, if any.
\<close>

fun time_models ::
  "('g, 'a, 'r) torch \<Rightarrow> 'a tensor \<Rightarrow> (string \<times> 'a model) list \<Rightarrow> ('g, 'a, 'r, 'f) notebook \<Rightarrow>
   (string \<times> 'a model) list \<times> ('g, 'a, 'r, 'f) notebook \<times> error option" where
  "time_models lib x [] nb = ([], nb, None)"
| "time_models lib x ((modelname, model) # rest) nb =
     (let t = blocked_autorange lib (rng nb) model x
      in case outcome t of
           Inl e \<Rightarrow>
             ((modelname, model_after t) # rest,
              nb\<lparr>rng := rng_after t, trace := trace nb @ [Raised modelname x e]\<rparr>, Some e)
         | Inr r \<Rightarrow>
             (case time_models lib (input_after t) rest
                     (nb\<lparr>rng := rng_after t, results := results nb @ [(modelname, r)],
                         trace := trace nb @ [Timed modelname x]\<rparr>) of
                (rest', nb', err) \<Rightarrow> ((modelname, model_after t) # rest', nb', err)))"

text \<open>
  The outer loop, \<^verbatim>\<open>for _ in range(batches): x = torch.randn(...).to(device); ...\<close>,
  with \<open>n\<close> iterations left.
\<close>

fun batch_loop ::
  "('g, 'a, 'r) torch \<Rightarrow> nat \<Rightarrow> nat list \<Rightarrow> ('g, 'a, 'r, 'f) notebook \<Rightarrow>
   ('g, 'a, 'r, 'f) notebook \<times> error option" where
  "batch_loop lib 0 dims nb = (nb, None)"
| "batch_loop lib (Suc n) dims nb =
     (case randn lib (rng nb) dims of
        (x0, g) \<Rightarrow>
          (let x = to_device lib x0;
               nb1 = nb\<lparr>rng := g, trace := trace nb @ [Randn x]\<rparr>
           in case time_models lib x (models nb1) nb1 of
                (models', nb2, Some e) \<Rightarrow> (nb2\<lparr>models := models'\<rparr>, Some e)
              | (models', nb2, None) \<Rightarrow> batch_loop lib n dims (nb2\<lparr>models := models'\<rparr>)))"

text \<open>
  \<^verbatim>\<open>compare_benchmarks(models, batches=10, batch_size=16, channels=3, input_size=(224, 224))\<close>.
  \<^verbatim>\<open>range\<close> of a negative count is empty. An exception leaves the function
  before the table is printed.
\<close>

definition compare_benchmarks ::
  "('g, 'a, 'r) torch \<Rightarrow> int \<Rightarrow> nat \<Rightarrow> nat \<Rightarrow> nat list \<Rightarrow> ('g, 'a, 'r, 'f) notebook \<Rightarrow>
   ('g, 'a, 'r, 'f) notebook \<times> error option" where
  "compare_benchmarks lib batches batch_size channels input_size nb =
     (let nb1 = nb\<lparr>results := []\<rparr>;
          nb2 = nb1\<lparr>rng := manual_seed lib 0, trace := trace nb1 @ [ManualSeed 0]\<rparr>
      in case batch_loop lib (nat batches) (batch_size # channels # input_size) nb2 of
           (nb3, Some e) \<Rightarrow> (nb3, Some e)
         | (nb3, None) \<Rightarrow> (nb3\<lparr>trace := trace nb3 @ [Print (Table (merge (results nb3)))]\<rparr>, None))"

text \<open>
  Readings of a trace: the seeds set, the tensors generated, the labels of the
  timed calls that returned, the calls made with the tensor each was given
  (returned or raised), the exceptions raised and the lines printed.
\<close>

fun seeds :: "('a, 'r, 'f) event list \<Rightarrow> nat list" where
  "seeds [] = []"
| "seeds (ManualSeed s # evs) = s # seeds evs"
| "seeds (_ # evs) = seeds evs"

fun generated :: "('a, 'r, 'f) event list \<Rightarrow> 'a tensor list" where
  "generated [] = []"
| "generated (Randn x # evs) = x # generated evs"
| "generated (_ # evs) = generated evs"

fun returned :: "('a, 'r, 'f) event list \<Rightarrow> string list" where
  "returned [] = []"
| "returned (Timed l x # evs) = l # returned evs"
| "returned (_ # evs) = returned evs"

fun calls :: "('a, 'r, 'f) event list \<Rightarrow> (string \<times> 'a tensor) list" where
  "calls [] = []"
| "calls (Timed l x # evs) = (l, x) # calls evs"
| "calls (Raised l x e # evs) = (l, x) # calls evs"
| "calls (_ # evs) = calls evs"

fun raised :: "('a, 'r, 'f) event list \<Rightarrow> error list" where
  "raised [] = []"
| "raised (Raised l x e # evs) = e # raised evs"
| "raised (_ # evs) = raised evs"

fun printed :: "('a, 'r, 'f) event list \<Rightarrow> ('r, 'f) line list" where
  "printed [] = []"
| "printed (Print pl # evs) = pl # printed evs"
| "printed (_ # evs) = printed evs"

text \<open>Every call in a trace is made with the tensor generated last before it.\<close>

fun uses_latest :: "'a tensor option \<Rightarrow> ('a, 'r, 'f) event list \<Rightarrow> bool" where
  "uses_latest cur [] = True"
| "uses_latest cur (Randn x # evs) = uses_latest (Some x) evs"
| "uses_latest cur (Timed l x # evs) = (cur = Some x \<and> uses_latest cur evs)"
| "uses_latest cur (Raised l x e # evs) = (cur = Some x \<and> uses_latest cur evs)"
| "uses_latest cur (_ # evs) = uses_latest cur evs"

text \<open>The labels of the latency columns and of the size lines among printed lines.\<close>

fun latency_labels :: "('r, 'f) line list \<Rightarrow> string list" where
  "latency_labels [] = []"
| "latency_labels (Table t # lns) = map fst t @ latency_labels lns"
| "latency_labels (SizeLine l v # lns) = latency_labels lns"

fun size_labels :: "('r, 'f) line list \<Rightarrow> string list" where
  "size_labels [] = []"
| "size_labels (SizeLine l v # lns) = l # size_labels lns"
| "size_labels (Table t # lns) = size_labels lns"

text \<open>
  The tensors that \<open>n\<close> successive draws of the given dimensions yield from the
  generator state \<open>g\<close>, each moved to the device; and the events of one batch
  that times every label with the tensor \<open>x\<close>.
\<close>

fun draw :: "('g, 'a, 'r) torch \<Rightarrow> 'g \<Rightarrow> nat \<Rightarrow> nat list \<Rightarrow> 'a tensor list" where
  "draw lib g 0 dims = []"
| "draw lib g (Suc n) dims =
     (case randn lib g dims of (x0, g') \<Rightarrow> to_device lib x0 # draw lib g' n dims)"

definition batch_events :: "string list \<Rightarrow> 'a tensor \<Rightarrow> ('a, 'r, 'f) event list" where
  "batch_events labels x = Randn x # map (\<lambda>l. Timed l x) labels"

text \<open>
  One timed call, seen from the model: \<open>m'\<close> is the model \<open>m\<close> as some timed
  call left it.
\<close>

definition timed_call :: "('g, 'a, 'r) torch \<Rightarrow> 'a model \<Rightarrow> 'a model \<Rightarrow> bool" where
  "timed_call lib m m' = (\<exists>g x. m' = model_after (blocked_autorange lib g m x))"

text \<open>
  Libraries for the examples. The generator state is a counter and a drawn tensor
  is filled with it. A model takes a batch of images whose channel count is the
  one its first module, a convolution, expects; on any other input, and for a
  model without modules, the forward pass raises. On an input the model takes,
  the timed passes leave the model, the input and the generator as the three
  functions given say.

  \<open>quiet_lib\<close> leaves all three as they were. The timer runs as many forward
  passes as fit into its minimal run time, a number that the load of the machine
  decides; \<open>bn_lib\<close> and \<open>dropout_lib\<close> take it as a parameter. \<open>bn_lib\<close> times
  a model that is in training mode, the mode \<^verbatim>\<open>resnet18(...)\<close> returns it in
  (the notebook never calls \<^verbatim>\<open>eval()\<close>): on every pass every
  \<^verbatim>\<open>BatchNorm2d\<close> module counts the batch in its buffer \<open>num_batches_tracked\<close>
  (and updates its running statistics, which the example leaves out).
  \<open>clamp_lib\<close> times models whose forward pass begins with the in-place
  \<^verbatim>\<open>x.clamp_(min=1)\<close>. \<open>dropout_lib\<close> times models with a dropout layer in
  training mode, which draws from the default generator once on every pass.
\<close>

definition counter_randn :: "nat \<Rightarrow> nat list \<Rightarrow> int tensor \<times> nat" where
  "counter_randn g dims =
     (\<lparr>shape = dims, element_size = 4, elems = replicate (prod_list dims) (int g)\<rparr>, Suc g)"

definition accepts :: "'a model \<Rightarrow> 'a tensor \<Rightarrow> bool" where
  "accepts model x =
     (case model of
        [] \<Rightarrow> False
      | (n, md) # _ \<Rightarrow>
          (case dict_get (params md) ''weight'' of
             None \<Rightarrow> False
           | Some w \<Rightarrow>
               length (shape x) = 4 \<and> length (shape w) = 4 \<and> shape x ! 1 = shape w ! 1))"

definition example_lib ::
  "(int model \<Rightarrow> int model) \<Rightarrow> (int tensor \<Rightarrow> int tensor) \<Rightarrow> (nat \<Rightarrow> nat) \<Rightarrow>
   (nat, int, unit) torch" where
  "example_lib on_model on_input on_rng =
     \<lparr>manual_seed = (\<lambda>s. s), randn = counter_randn, to_device = (\<lambda>x. x),
      blocked_autorange =
        (\<lambda>g model x.
           if accepts model x
           then \<lparr>outcome = Inr (), model_after = on_model model, input_after = on_input x,
                 rng_after = on_rng g\<rparr>
           else \<lparr>outcome = Inl (Error ''RuntimeError''), model_after = model, input_after = x,
                 rng_after = g\<rparr>)\<rparr>"

definition quiet_lib :: "(nat, int, unit) torch" where
  "quiet_lib = example_lib (\<lambda>m. m) (\<lambda>x. x) (\<lambda>g. g)"

definition bn_forward :: "int model \<Rightarrow> int model" where
  "bn_forward model =
     map (\<lambda>(n, md).
            (n, if kind md = BatchNorm2d then
                  md\<lparr>bufs := map (\<lambda>(k, t). if k = ''num_batches_tracked''
                                            then (k, t\<lparr>elems := map (\<lambda>v. v + 1) (elems t)\<rparr>)
                                            else (k, t)) (bufs md)\<rparr>
                else md))
       model"

definition bn_lib :: "nat \<Rightarrow> (nat, int, unit) torch" where
  "bn_lib passes = example_lib (bn_forward ^^ passes) (\<lambda>x. x) (\<lambda>g. g)"

definition clamp_lib :: "(nat, int, unit) torch" where
  "clamp_lib = example_lib (\<lambda>m. m) (\<lambda>x. x\<lparr>elems := map (max 1) (elems x)\<rparr>) (\<lambda>g. g)"

definition dropout_lib :: "nat \<Rightarrow> (nat, int, unit) torch" where
  "dropout_lib passes = example_lib (\<lambda>m. m) (\<lambda>x. x) (\<lambda>g. g + passes)"

definition example_notebook :: "(string \<times> int model) list \<Rightarrow> (nat, int, unit, int \<times> int) notebook" where
  "example_notebook ms = \<lparr>rng = 7, models = ms, results = [], trace = []\<rparr>"

section \<open>The training driver\<close>

text \<open>
  \<^verbatim>\<open>train(model, manifold, opt)\<close> works on three objects and the globals
  \<^verbatim>\<open>trainloader\<close>, \<^verbatim>\<open>criterion\<close> and \<^verbatim>\<open>device\<close>. The state of the three
  objects (parameters, gradients, curvature, optimizer state) is one value of an
  uninterpreted type \<open>'w\<close>; tensors handed from call to call are values of
  \<open>'v\<close>. The library calls are parameters; those that compute may raise.

  \<open>project\<close> is \<^verbatim>\<open>manifold.expmap(TangentTensor(data=inputs, man_dim=1, manifold=manifold))\<close>,
  \<open>forward\<close> is \<^verbatim>\<open>model(manifold_inputs)\<close>, \<open>criterion\<close> is
  \<^verbatim>\<open>criterion(outputs.tensor, labels)\<close>, \<open>item\<close> is \<^verbatim>\<open>loss.item()\<close>.
  \<open>fzero\<close>, \<open>fadd\<close> and \<open>fdiv\<close> are the float \<open>0.0\<close>, float addition and the
  division of a float by an integer.
\<close>

record ('w, 'v, 'f) lib =
  move_to_device :: "'v \<Rightarrow> 'v"
  project :: "'w \<Rightarrow> 'v \<Rightarrow> error + 'v"
  zero_grad :: "'w \<Rightarrow> 'w"
  forward :: "'w \<Rightarrow> 'v \<Rightarrow> error + 'v \<times> 'w"
  criterion :: "'v \<Rightarrow> 'v \<Rightarrow> error + 'v"
  backward :: "'w \<Rightarrow> 'v \<Rightarrow> error + 'w"
  opt_step :: "'w \<Rightarrow> error + 'w"
  item :: "'v \<Rightarrow> 'f"
  fzero :: 'f
  fadd :: "'f \<Rightarrow> 'f \<Rightarrow> 'f"
  fdiv :: "'f \<Rightarrow> int \<Rightarrow> 'f"

text \<open>
  What happens during \<^verbatim>\<open>train\<close>: one event per statement that completed.
  \<open>Accumulate l\<close> is \<^verbatim>\<open>running_loss += loss.item()\<close> with \<open>l\<close> the value of
  \<^verbatim>\<open>loss.item()\<close>; \<open>Report e n v\<close> is the progress line with its three
  interpolated values; \<open>Reset\<close> is \<^verbatim>\<open>running_loss = 0.0\<close>.
\<close>

datatype 'f step_event =
  MoveToDevice
| Project
| ZeroGrad
| Forward
| Criterion
| Backward
| OptStep
| Accumulate 'f
| Report nat nat 'f
| Reset
| Finished

text \<open>The log holds the events newest first; \<open>history\<close> reads it oldest first.\<close>

record ('w, 'f) train_state =
  world :: 'w
  running_loss :: 'f
  log :: "'f step_event list"

definition history :: "('w, 'f) train_state \<Rightarrow> 'f step_event list" where
  "history st = rev (log st)"

definition emit :: "'f step_event \<Rightarrow> ('w, 'f) train_state \<Rightarrow> ('w, 'f) train_state" where
  "emit ev st = st\<lparr>log := ev # log st\<rparr>"

text \<open>
  The body of the inner loop for step \<open>i\<close> of epoch \<open>epoch\<close> (both counted from
  0, as \<^verbatim>\<open>range\<close> and \<^verbatim>\<open>enumerate(trainloader, 0)\<close> do). An exception leaves
  the state as it was when the call raised.
\<close>

definition train_step ::
  "('w, 'v, 'f) lib \<Rightarrow> nat \<Rightarrow> nat \<Rightarrow> ('w, 'f) train_state \<Rightarrow> 'v \<times> 'v \<Rightarrow>
   ('w, 'f) train_state \<times> error option" where
  "train_step lib epoch i st dat =
     (let inputs = move_to_device lib (fst dat);
          labels = move_to_device lib (snd dat);
          st1 = emit MoveToDevice st
      in case project lib (world st1) inputs of
           Inl e \<Rightarrow> (st1, Some e)
         | Inr manifold_inputs \<Rightarrow>
     (let st2 = emit Project st1;
          st3 = emit ZeroGrad (st2\<lparr>world := zero_grad lib (world st2)\<rparr>)
      in case forward lib (world st3) manifold_inputs of
           Inl e \<Rightarrow> (st3, Some e)
         | Inr (outputs, w) \<Rightarrow>
     (let st4 = emit Forward (st3\<lparr>world := w\<rparr>)
      in case criterion lib outputs labels of
           Inl e \<Rightarrow> (st4, Some e)
         | Inr loss \<Rightarrow>
     (let st5 = emit Criterion st4
      in case backward lib (world st5) loss of
           Inl e \<Rightarrow> (st5, Some e)
         | Inr w' \<Rightarrow>
     (let st6 = emit Backward (st5\<lparr>world := w'\<rparr>)
      in case opt_step lib (world st6) of
           Inl e \<Rightarrow> (st6, Some e)
         | Inr w'' \<Rightarrow>
     (let st7 = emit OptStep (st6\<lparr>world := w''\<rparr>);
          st8 = emit (Accumulate (item lib loss))
                  (st7\<lparr>running_loss := fadd lib (running_loss st7) (item lib loss)\<rparr>)
      in if i mod 2000 = 1999 then
           (let st9 = emit (Report (epoch + 1) (i + 1) (fdiv lib (running_loss st8) 2000)) st8
            in (emit Reset (st9\<lparr>running_loss := fzero lib\<rparr>), None))
         else (st8, None)))))))"

text \<open>\<^verbatim>\<open>for i, data in enumerate(trainloader, 0): ...\<close> from index \<open>i\<close> on.\<close>

fun steps_loop ::
  "('w, 'v, 'f) lib \<Rightarrow> nat \<Rightarrow> nat \<Rightarrow> ('w, 'f) train_state \<Rightarrow> ('v \<times> 'v) list \<Rightarrow>
   ('w, 'f) train_state \<times> error option" where
  "steps_loop lib epoch i st [] = (st, None)"
| "steps_loop lib epoch i st (dat # rest) =
     (case train_step lib epoch i st dat of
        (st', Some e) \<Rightarrow> (st', Some e)
      | (st', None) \<Rightarrow> steps_loop lib epoch (Suc i) st' rest)"

text \<open>
  \<^verbatim>\<open>for epoch in range(2): running_loss = 0.0; ...\<close> over the epochs left.
  The loader shuffles, so the batches of an epoch depend on the epoch:
  \<open>trainloader epoch\<close> is the sequence it yields in that epoch.
\<close>

fun epochs_loop ::
  "('w, 'v, 'f) lib \<Rightarrow> (nat \<Rightarrow> ('v \<times> 'v) list) \<Rightarrow> nat list \<Rightarrow> ('w, 'f) train_state \<Rightarrow>
   ('w, 'f) train_state \<times> error option" where
  "epochs_loop lib trainloader [] st = (st, None)"
| "epochs_loop lib trainloader (epoch # later) st =
     (case steps_loop lib epoch 0 (emit Reset (st\<lparr>running_loss := fzero lib\<rparr>))
             (trainloader epoch) of
        (st', Some e) \<Rightarrow> (st', Some e)
      | (st', None) \<Rightarrow> epochs_loop lib trainloader later st')"

text \<open>
  \<^verbatim>\<open>train\<close> from the world \<open>w\<close>. \<^verbatim>\<open>running_loss\<close> is unbound until the first
  epoch assigns it; the initial record holds \<open>0.0\<close> there.
\<close>

definition train ::
  "('w, 'v, 'f) lib \<Rightarrow> (nat \<Rightarrow> ('v \<times> 'v) list) \<Rightarrow> 'w \<Rightarrow> ('w, 'f) train_state \<times> error option" where
  "train lib trainloader w =
     (case epochs_loop lib trainloader [0, 1] \<lparr>world = w, running_loss = fzero lib, log = []\<rparr> of
        (st, Some e) \<Rightarrow> (st, Some e)
      | (st, None) \<Rightarrow> (emit Finished st, None))"

text \<open>
  The operations of a step that an ordering speaks about, and a check that the
  events of a history follow a given cyclic order: every event that is one of the
  listed operations must be the one whose turn it is (position \<open>k\<close> of the order);
  other events are passed over. The result is the position reached, or \<open>None\<close>
  when an operation occurs out of turn.
\<close>

fun follow :: "'f step_event list \<Rightarrow> nat \<Rightarrow> 'f step_event list \<Rightarrow> nat option" where
  "follow order k [] = Some k"
| "follow order k (ev # evs) =
     (if ev \<in> set order then
        (if order ! k = ev then follow order (Suc k mod length order) evs else None)
      else follow order k evs)"

text \<open>A history with the payload of its events erased, so that events compare by kind.\<close>

fun kind_of :: "'f step_event \<Rightarrow> unit step_event" where
  "kind_of (Accumulate l) = Accumulate ()"
| "kind_of (Report e n v) = Report 0 0 ()"
| "kind_of MoveToDevice = MoveToDevice"
| "kind_of Project = Project"
| "kind_of ZeroGrad = ZeroGrad"
| "kind_of Forward = Forward"
| "kind_of Criterion = Criterion"
| "kind_of Backward = Backward"
| "kind_of OptStep = OptStep"
| "kind_of Reset = Reset"
| "kind_of Finished = Finished"

text \<open>The order of a step in the code, and the order as the specification lists it.\<close>

definition code_order :: "unit step_event list" where
  "code_order = [Project, ZeroGrad, Forward, Criterion, Backward, OptStep, Accumulate ()]"

definition spec_order :: "unit step_event list" where
  "spec_order = [ZeroGrad, Project, Forward, Criterion, Backward, OptStep, Accumulate ()]"

text \<open>
  A check of the reported means against a history. It carries the window: the
  float sum and the count of the losses accumulated since the window began. A
  report must show the sum divided by the count, and the count must be
  acceptable to \<open>full\<close>; an event for which \<open>starts\<close> holds begins a new window
  after it. \<open>window_after\<close> is the window at the end of a history.
\<close>

fun window_step ::
  "('w, 'v, 'f) lib \<Rightarrow> ('f step_event \<Rightarrow> bool) \<Rightarrow> 'f \<times> nat \<Rightarrow> 'f step_event \<Rightarrow> 'f \<times> nat" where
  "window_step lib starts (s, n) ev =
     (if starts ev then (fzero lib, 0)
      else (case ev of Accumulate l \<Rightarrow> (fadd lib s l, Suc n) | _ \<Rightarrow> (s, n)))"

fun window_after ::
  "('w, 'v, 'f) lib \<Rightarrow> ('f step_event \<Rightarrow> bool) \<Rightarrow> 'f \<times> nat \<Rightarrow> 'f step_event list \<Rightarrow> 'f \<times> nat" where
  "window_after lib starts sn [] = sn"
| "window_after lib starts sn (ev # evs) = window_after lib starts (window_step lib starts sn ev) evs"

fun window_means ::
  "('w, 'v, 'f) lib \<Rightarrow> ('f step_event \<Rightarrow> bool) \<Rightarrow> (nat \<Rightarrow> bool) \<Rightarrow> 'f \<times> nat \<Rightarrow>
   'f step_event list \<Rightarrow> bool" where
  "window_means lib starts full sn [] = True"
| "window_means lib starts full sn (ev # evs) =
     ((case ev of Report e k v \<Rightarrow> v = fdiv lib (fst sn) (int (snd sn)) \<and> full (snd sn) | _ \<Rightarrow> True) \<and>
      window_means lib starts full (window_step lib starts sn ev) evs)"

fun is_reset :: "'f step_event \<Rightarrow> bool" where
  "is_reset Reset = True"
| "is_reset _ = False"

fun is_report :: "'f step_event \<Rightarrow> bool" where
  "is_report (Report e n v) = True"
| "is_report _ = False"

text \<open>
  A check that every report of a history carries a step number that is a positive
  multiple of 2000 and is followed at once by the reset of the accumulator.
\<close>

fun reports_then_reset :: "'f step_event list \<Rightarrow> bool" where
  "reports_then_reset [] = True"
| "reports_then_reset (Report e n v # evs) =
     (0 < n \<and> n mod 2000 = 0 \<and> (case evs of Reset # _ \<Rightarrow> True | _ \<Rightarrow> False) \<and>
      reports_then_reset evs)"
| "reports_then_reset (_ # evs) = reports_then_reset evs"

text \<open>
  A library for the examples: the world counts nothing, every call returns, the
  loss of a batch is its label, and floats are rationals. \<open>short_loader\<close> yields
  one batch per epoch; \<open>long_loader\<close> yields 2001 batches per epoch, the last with
  loss 2001 and the others with loss 0.
\<close>

definition plain_lib :: "(unit, nat, rat) lib" where
  "plain_lib =
     \<lparr>move_to_device = (\<lambda>v. v), project = (\<lambda>w v. Inr v), zero_grad = (\<lambda>w. w),
      forward = (\<lambda>w v. Inr (v, w)), criterion = (\<lambda>outputs labels. Inr labels),
      backward = (\<lambda>w v. Inr w), opt_step = (\<lambda>w. Inr w), item = (\<lambda>v. of_nat v),
      fzero = 0, fadd = (\<lambda>a b. a + b), fdiv = (\<lambda>a n. a / of_int n)\<rparr>"

definition short_loader :: "nat \<Rightarrow> (nat \<times> nat) list" where
  "short_loader epoch = [(0, 3)]"

definition long_loader :: "nat \<Rightarrow> (nat \<times> nat) list" where
  "long_loader epoch = replicate 2000 (0, 0) @ [(0, 2001)]"

section \<open>Properties of the registry\<close>

lemma register_keys:
  "map fst (register k v reg) = (if k \<in> set (map fst reg) then map fst reg else map fst reg @ [k])"
  by (induction reg) force+

lemma register_distinct: "distinct (map fst reg) \<Longrightarrow> distinct (map fst (register k v reg))"
  by (simp add: register_keys)

lemma dict_get_register:
  "dict_get (register k v reg) k' = (if k' = k then Some v else dict_get reg k')"
  by (induction reg) auto

lemma register_all_distinct:
  "distinct (map fst reg) \<Longrightarrow> distinct (map fst (register_all reg ops))"
  by (induction ops arbitrary: reg) (auto simp: register_distinct)

lemma first_seen_set: "set (first_seen ks) = set ks"
  by (induction ks rule: first_seen.induct) auto

lemma first_seen_filter:
  "first_seen (filter P ks) = filter P (first_seen ks)"
proof (induction ks rule: first_seen.induct)
  case 1
  then show ?case by simp
next
  case (2 k ks)
  have c: "filter (\<lambda>k'. k' \<noteq> k) (filter P ks) = filter P (filter (\<lambda>k'. k' \<noteq> k) ks)"
    by (induction ks) auto
  show ?case
  proof (cases "P k")
    case True
    have "first_seen (filter P (k # ks)) = k # first_seen (filter (\<lambda>k'. k' \<noteq> k) (filter P ks))"
      using True by simp
    then show ?thesis using 2 True by (simp only: c) simp
  next
    case False
    then have "filter P ks = filter P (filter (\<lambda>k'. k' \<noteq> k) ks)"
      by (induction ks) auto
    then have "first_seen (filter P (k # ks)) = first_seen (filter P (filter (\<lambda>k'. k' \<noteq> k) ks))"
      using False by simp
    then show ?thesis using 2 False by simp
  qed
qed

lemma first_seen_distinct: "distinct (first_seen ks)"
  by (induction ks rule: first_seen.induct) (auto simp: first_seen_set)

lemma first_seen_id: "distinct ks \<Longrightarrow> first_seen ks = ks"
proof (induction ks)
  case Nil
  then show ?case by simp
next
  case (Cons k ks)
  then have "filter (\<lambda>k'. k' \<noteq> k) ks = ks" by (auto intro: filter_True)
  with Cons show ?case by simp
qed

lemma first_seen_append:
  "first_seen (xs @ ys) = first_seen xs @ filter (\<lambda>k. k \<notin> set xs) (first_seen ys)"
proof (induction xs arbitrary: ys rule: first_seen.induct)
  case 1
  then show ?case by simp
next
  case (2 k ks)
  have "first_seen ((k # ks) @ ys) = k # first_seen (filter (\<lambda>k'. k' \<noteq> k) ks @ filter (\<lambda>k'. k' \<noteq> k) ys)"
    by simp
  also have "\<dots> = k # first_seen (filter (\<lambda>k'. k' \<noteq> k) ks) @
      filter (\<lambda>x. x \<notin> set (filter (\<lambda>k'. k' \<noteq> k) ks)) (first_seen (filter (\<lambda>k'. k' \<noteq> k) ys))"
    using 2 by simp
  also have "filter (\<lambda>x. x \<notin> set (filter (\<lambda>k'. k' \<noteq> k) ks)) (first_seen (filter (\<lambda>k'. k' \<noteq> k) ys))
     = filter (\<lambda>x. x \<notin> set (k # ks)) (first_seen ys)"
    by (auto simp: first_seen_filter intro: filter_cong)
  finally show ?case by simp
qed

lemma register_all_keys:
  "distinct (map fst reg) \<Longrightarrow> map fst (register_all reg ops) = first_seen (map fst reg @ map fst ops)"
proof (induction ops arbitrary: reg)
  case Nil
  then show ?case by (simp add: first_seen_id)
next
  case (Cons op ops)
  obtain k v where op: "op = (k, v)" by (cases op)
  have d: "distinct (map fst (register k v reg))" using Cons.prems by (rule register_distinct)
  show ?case
  proof (cases "k \<in> set (map fst reg)")
    case True
    have "first_seen (map fst reg @ k # map fst ops) = first_seen (map fst reg @ map fst ops)"
      using True by (simp add: first_seen_append first_seen_filter) (auto intro: filter_cong)
    then show ?thesis using Cons.IH[OF d] True by (simp add: op register_keys)
  next
    case False
    then show ?thesis using Cons.IH[OF d] by (simp add: op register_keys)
  qed
qed

lemma dict_get_register_all:
  "dict_get (register_all reg ops) k =
     (case dict_get (rev ops) k of Some v \<Rightarrow> Some v | None \<Rightarrow> dict_get reg k)"
proof (induction ops arbitrary: reg)
  case Nil
  then show ?case by simp
next
  case (Cons op ops)
  have app: "\<And>xs ys. dict_get (xs @ ys) k = (case dict_get xs k of Some v \<Rightarrow> Some v | None \<Rightarrow> dict_get ys k)"
    subgoal for xs ys by (induction xs) auto
    done
  obtain k' v where op: "op = (k', v)" by (cases op)
  show ?case using Cons.IH by (auto simp: op app dict_get_register split: option.splits)
qed

lemma register_present:
  "k \<in> set (map fst reg) \<Longrightarrow>
     register k v reg = reg[position k reg := (k, v)] \<and> position k reg < length reg"
  by (induction reg) force+

lemma dict_get_None: "dict_get d k = None \<longleftrightarrow> k \<notin> set (map fst d)"
  by (induction d) (force split: if_splits)+

lemma dict_get_append:
  "dict_get (xs @ ys) k = (case dict_get xs k of Some v \<Rightarrow> Some v | None \<Rightarrow> dict_get ys k)"
  by (induction xs) auto

lemma register_absent: "dict_get d k = None \<Longrightarrow> register k v d = d @ [(k, v)]"
  by (induction d) (auto split: if_splits)

lemma dict_del_absent: "dict_get d k = None \<Longrightarrow> dict_del k d = d"
  by (induction d) (auto split: if_splits)

lemma dict_del_append_present:
  "dict_get xs k = Some v \<Longrightarrow> dict_del k (xs @ ys) = dict_del k xs @ ys"
  by (induction xs) (auto split: if_splits)

lemma dict_del_append_absent:
  "dict_get xs k = None \<Longrightarrow> dict_del k (xs @ ys) = xs @ dict_del k ys"
  by (induction xs) (auto split: if_splits)

lemma dict_get_dict_del:
  "distinct (map fst d) \<Longrightarrow> dict_get (dict_del k d) k' = (if k' = k then None else dict_get d k')"
proof (induction d)
  case Nil
  then show ?case by simp
next
  case (Cons p d)
  obtain a b where p: "p = (a, b)" by (cases p)
  from Cons.prems have "dict_get d a = None" by (simp add: p dict_get_None)
  with Cons show ?case by (auto simp: p)
qed

lemma dict_del_keys: "x \<in> set (map fst (dict_del k d)) \<Longrightarrow> x \<in> set (map fst d)"
proof (induction d)
  case Nil
  then show ?case by simp
next
  case (Cons p d)
  obtain a b where p: "p = (a, b)" by (cases p)
  show ?case
  proof (cases "a = k")
    case True
    with Cons.prems show ?thesis by (simp add: p)
  next
    case False
    with Cons show ?thesis by (auto simp: p)
  qed
qed

lemma dict_del_distinct: "distinct (map fst d) \<Longrightarrow> distinct (map fst (dict_del k d))"
proof (induction d)
  case Nil
  then show ?case by simp
next
  case (Cons p d)
  obtain a b where p: "p = (a, b)" by (cases p)
  show ?case
  proof (cases "a = k")
    case True
    with Cons.prems show ?thesis by (simp add: p)
  next
    case False
    have "a \<notin> set (map fst (dict_del k d))"
      using Cons.prems dict_del_keys[of a k d] by (auto simp: p)
    with False Cons show ?thesis by (simp add: p)
  qed
qed

lemma sum_dict_del:
  "dict_get d k = Some v \<Longrightarrow>
     (\<Sum>t\<leftarrow>map snd d. f t) = f v + (\<Sum>t\<leftarrow>map snd (dict_del k d). (f t :: nat))"
  by (induction d) (auto split: if_splits)

text \<open>
  C5. For every sequence of registrations, starting from the empty registry, each
  label occurs at most once; iterating yields the labels in the order of their
  first registration, each with the model registered last; and registering a
  label that is present replaces the model at the label's position and leaves
  the labels and their order as they were.
\<close>

theorem registry_unique_ordered_replacing:
  "distinct (map fst (register_all [] ops)) \<and>
   map fst (register_all [] ops) = first_seen (map fst ops) \<and>
   dict_get (register_all [] ops) label = dict_get (rev ops) label \<and>
   (label \<in> set (map fst (register_all [] ops)) \<longrightarrow>
      register label model (register_all [] ops) =
        (register_all [] ops)[position label (register_all [] ops) := (label, model)] \<and>
      position label (register_all [] ops) < length (register_all [] ops) \<and>
      map fst (register label model (register_all [] ops)) = map fst (register_all [] ops))"
proof -
  let ?r = "register_all [] ops"
  have a: "distinct (map fst ?r)"
    using register_all_distinct[of "[]" ops] by simp
  have b: "map fst ?r = first_seen (map fst ops)"
    using register_all_keys[of "[]" ops] by simp
  have c: "dict_get ?r label = dict_get (rev ops) label"
    by (simp add: dict_get_register_all split: option.splits)
  have d: "register label model ?r = ?r[position label ?r := (label, model)] \<and>
           position label ?r < length ?r" if "label \<in> set (map fst ?r)"
    using that by (rule register_present)
  have e: "map fst (register label model ?r) = map fst ?r" if "label \<in> set (map fst ?r)"
    using that by (simp only: register_keys if_True)
  show ?thesis using a b c d e by blast
qed

theorem registry_unique_ordered_replacing_witness:
  "''control'' \<in> set (map fst (register_all [] [(''control'', 1::nat), (''pruned'', 2), (''control'', 3)])) \<and>
   register_all [] [(''control'', 1::nat), (''pruned'', 2), (''control'', 3)] =
     [(''control'', 3), (''pruned'', 2)] \<and>
   register ''control'' 4 (register_all [] [(''control'', 1::nat), (''pruned'', 2), (''control'', 3)]) =
     [(''control'', 4), (''pruned'', 2)]"
  using registry_unique_ordered_replacing
    [of "[(''control'', 1::nat), (''pruned'', 2), (''control'', 3)]" "''control''" 4]
  by simp

section \<open>Properties of the size report\<close>

lemma accumulate_size_sum:
  "accumulate_size acc ts = acc + (\<Sum>t\<leftarrow>ts. nelement t * element_size t)"
  by (induction ts arbitrary: acc) auto

lemma size_lines_map:
  "size_lines truediv ms = map (\<lambda>(name, model). SizeLine name (size_all_mb truediv model)) ms"
  by (induction ms) auto

lemma size_all_mb_sum:
  "size_all_mb truediv model =
     truediv (int ((\<Sum>p\<leftarrow>parameters model. nelement p * element_size p) +
                   (\<Sum>b\<leftarrow>buffers model. nelement b * element_size b))) (1024 ^ 2)"
  by (simp add: size_all_mb_def accumulate_size_sum)

text \<open>
  C7. For every model the size that \<^verbatim>\<open>compare_modelsize\<close> reports is the sum
  over the parameters of element count times element byte size, plus the same sum
  over the buffers, divided by \<open>1024\<^sup>2\<close> (by Python's division, the result being
  printed with three decimals); one such line is printed per variant, in the
  order of the registry.
\<close>

theorem modelsize_is_sum_of_bytes:
  "trace (compare_modelsize truediv nb) =
     trace nb @
     map (\<lambda>(name, model).
            Print (SizeLine name
              (truediv (int ((\<Sum>p\<leftarrow>parameters model. nelement p * element_size p) +
                             (\<Sum>b\<leftarrow>buffers model. nelement b * element_size b)))
                 (1024 ^ 2))))
       (models nb)"
  by (simp add: compare_modelsize_def size_lines_map size_all_mb_sum split_def comp_def)

section \<open>Properties of the pruning cell\<close>

lemma prune_then_remove:
  assumes d: "distinct (map fst (params md))"
    and w: "dict_get (params md) nm = Some w"
    and o: "dict_get (params md) (nm @ ''_orig'') = None"
    and m: "dict_get (bufs md) (nm @ ''_mask'') = None"
  shows "\<exists>md'. (case prune_apply pruned md nm of Inl e \<Rightarrow> Inl e | Inr md1 \<Rightarrow> remove md1 nm) = Inr md' \<and>
           kind md' = kind md \<and> bufs md' = bufs md \<and>
           params md' = dict_del nm (params md) @
             [(nm, w\<lparr>elems := map2 (*) (elems w) (elems (compute_mask pruned w))\<rparr>)]"
proof -
  let ?o = "nm @ ''_orig''" and ?m = "nm @ ''_mask''"
  let ?rest = "dict_del nm (params md)"
  let ?msk = "compute_mask pruned w"
  let ?w' = "w\<lparr>elems := map2 (*) (elems w) (elems ?msk)\<rparr>"
  have ne: "?o \<noteq> nm" by simp
  have p1: "register ?o w (params md) = params md @ [(?o, w)]"
    using o by (rule register_absent)
  have p2: "dict_del nm (params md @ [(?o, w)]) = ?rest @ [(?o, w)]"
    using w by (rule dict_del_append_present)
  have b1: "register ?m ?msk (bufs md) = bufs md @ [(?m, ?msk)]"
    using m by (rule register_absent)
  have ro: "dict_get ?rest ?o = None"
    using d o ne by (simp add: dict_get_dict_del)
  have rn: "dict_get ?rest nm = None"
    using d by (simp add: dict_get_dict_del)
  have g1: "dict_get (?rest @ [(?o, w)]) ?o = Some w"
    using ro by (simp add: dict_get_append)
  have g2: "dict_get (bufs md @ [(?m, ?msk)]) ?m = Some ?msk"
    using m by (simp add: dict_get_append)
  have p3: "dict_del ?o (?rest @ [(?o, w)]) = ?rest"
    using ro by (simp add: dict_del_append_absent)
  have b2: "dict_del ?m (bufs md @ [(?m, ?msk)]) = bufs md"
    using m by (simp add: dict_del_append_absent)
  have p4: "register nm ?w' ?rest = ?rest @ [(nm, ?w')]"
    using rn by (rule register_absent)
  show ?thesis
    using w by (simp add: prune_apply_def remove_def apply_mask_def Let_def p1 p2 b1 g1 g2 p3 b2 p4)
qed

lemma same_sizes_refl: "same_sizes md md"
  by (simp add: same_sizes_def)

lemma same_sizes_repl:
  assumes d: "distinct (map fst (params md))"
    and w: "dict_get (params md) nm = Some w"
    and k: "kind md' = kind md" and b: "bufs md' = bufs md"
    and p: "params md' = dict_del nm (params md) @ [(nm, w\<lparr>elems := es\<rparr>)]"
  shows "same_sizes md md'"
proof -
  have lay: "map_option (\<lambda>t. (shape t, nelement t, element_size t)) (dict_get (params md') q) =
             map_option (\<lambda>t. (shape t, nelement t, element_size t)) (dict_get (params md) q)" for q
    using d w by (auto simp: p dict_get_append dict_get_dict_del nelement_def split: option.splits)
  have "(\<Sum>t\<leftarrow>map snd (params md'). nelement t * element_size t) =
        (\<Sum>t\<leftarrow>map snd (dict_del nm (params md)). nelement t * element_size t) +
        nelement w * element_size w"
    by (simp add: p nelement_def)
  also have "\<dots> = (\<Sum>t\<leftarrow>map snd (params md). nelement t * element_size t)"
    using sum_dict_del[OF w, of "\<lambda>t. nelement t * element_size t"] by simp
  finally show ?thesis using k b lay by (simp add: same_sizes_def)
qed

lemma unstruct_body_same:
  assumes "prunable md"
  shows "\<exists>md'. unstruct_body choice n md = Inr md' \<and> same_sizes md md'"
proof -
  from assms obtain w where d: "distinct (map fst (params md))"
    and w: "dict_get (params md) ''weight'' = Some w"
    and o: "dict_get (params md) (''weight'' @ ''_orig'') = None"
    and m: "dict_get (bufs md) (''weight'' @ ''_mask'') = None"
    by (auto simp: prunable_def split: option.splits)
  from prune_then_remove[OF d w o m, of "choice n"] obtain md' where
    r: "(case prune_apply (choice n) md ''weight'' of Inl e \<Rightarrow> Inl e | Inr md1 \<Rightarrow> remove md1 ''weight'') = Inr md'"
    and k: "kind md' = kind md" and b: "bufs md' = bufs md"
    and p: "params md' = dict_del ''weight'' (params md) @
             [(''weight'', w\<lparr>elems := map2 (*) (elems w) (elems (compute_mask (choice n) w))\<rparr>)]"
    by blast
  have "unstruct_body choice n md = Inr md'"
    using r by (simp add: unstruct_body_def random_unstructured_def)
  moreover have "same_sizes md md'" using d w k b p by (rule same_sizes_repl)
  ultimately show ?thesis by blast
qed

lemma struct_body_same:
  assumes "prunable md"
  shows "\<exists>md'. struct_body choice n md = Inr md' \<and> same_sizes md md'"
proof -
  from assms obtain w where d: "distinct (map fst (params md))"
    and w: "dict_get (params md) ''weight'' = Some w"
    and dims: "2 \<le> length (shape w)"
    and o: "dict_get (params md) (''weight'' @ ''_orig'') = None"
    and m: "dict_get (bufs md) (''weight'' @ ''_mask'') = None"
    by (auto simp: prunable_def split: option.splits)
  let ?sel = "\<lambda>i. choice n (i div prod_list (tl (shape w)))"
  from prune_then_remove[OF d w o m, of ?sel] obtain md' where
    r: "(case prune_apply ?sel md ''weight'' of Inl e \<Rightarrow> Inl e | Inr md1 \<Rightarrow> remove md1 ''weight'') = Inr md'"
    and k: "kind md' = kind md" and b: "bufs md' = bufs md"
    and p: "params md' = dict_del ''weight'' (params md) @
             [(''weight'', w\<lparr>elems := map2 (*) (elems w) (elems (compute_mask ?sel w))\<rparr>)]"
    by blast
  have "struct_body choice n md = Inr md'"
    using r w dims by (simp add: struct_body_def random_structured_def)
  moreover have "same_sizes md md'" using d w k b p by (rule same_sizes_repl)
  ultimately show ?thesis by blast
qed

lemma prune_convs_same:
  assumes "\<And>n md. (n, md) \<in> set model \<Longrightarrow> kind md = Conv2d \<Longrightarrow>
             \<exists>md'. body n md = Inr md' \<and> same_sizes md md'"
  shows "\<exists>model'. prune_convs body model = Inr model' \<and>
           list_all2 (\<lambda>x y. fst y = fst x \<and> same_sizes (snd x) (snd y)) model model'"
  using assms
proof (induction model)
  case Nil
  then show ?case by simp
next
  case (Cons a model)
  obtain n md where a: "a = (n, md)" by (cases a)
  have "\<exists>model'. prune_convs body model = Inr model' \<and>
           list_all2 (\<lambda>x y. fst y = fst x \<and> same_sizes (snd x) (snd y)) model model'"
  proof (rule Cons.IH)
    fix n' md'
    assume "(n', md') \<in> set model" "kind md' = Conv2d"
    then show "\<exists>md''. body n' md' = Inr md'' \<and> same_sizes md' md''"
      using Cons.prems[of n' md'] by simp
  qed
  then obtain model' where r: "prune_convs body model = Inr model'"
    and l: "list_all2 (\<lambda>x y. fst y = fst x \<and> same_sizes (snd x) (snd y)) model model'"
    by blast
  show ?case
  proof (cases "kind md = Conv2d")
    case True
    have "\<exists>md'. body n md = Inr md' \<and> same_sizes md md'"
      using Cons.prems[of n md] True by (simp add: a)
    then obtain md' where "body n md = Inr md'" "same_sizes md md'" by blast
    with r l True show ?thesis by (simp add: a)
  next
    case False
    with r l show ?thesis by (simp add: a same_sizes_refl)
  qed
qed

lemma same_model_layout:
  assumes "list_all2 (\<lambda>x y. fst y = fst x \<and> same_sizes (snd x) (snd y)) model model'"
  shows "param_layout model' n p = param_layout model n p"
  using assms
proof (induction model model' rule: list_all2_induct)
  case Nil
  show ?case by simp
next
  case (Cons x xs y ys)
  obtain a md where x: "x = (a, md)" by (cases x)
  obtain b md' where y: "y = (b, md')" by (cases y)
  from Cons(1) have ab: "b = a" and ss: "same_sizes md md'" by (simp_all add: x y)
  from ss have lay: "map_option (\<lambda>t. (shape t, nelement t, element_size t)) (dict_get (params md') p) =
           map_option (\<lambda>t. (shape t, nelement t, element_size t)) (dict_get (params md) p)"
    by (simp add: same_sizes_def)
  have pl: "param_layout ((c, m) # rest) n p =
     (if c = n then map_option (\<lambda>t. (shape t, nelement t, element_size t)) (dict_get (params m) p)
      else param_layout rest n p)" for c and m :: "'a module" and rest
    by (simp add: param_layout_def split: option.splits)
  show ?case unfolding x y pl ab lay Cons.IH ..
qed

lemma same_model_buffers:
  assumes "list_all2 (\<lambda>x y. fst y = fst x \<and> same_sizes (snd x) (snd y)) model model'"
  shows "buffers model' = buffers model"
  using assms
proof (induction model model' rule: list_all2_induct)
  case Nil
  show ?case by simp
next
  case (Cons x xs y ys)
  from Cons(1) have "bufs (snd y) = bufs (snd x)" by (simp add: same_sizes_def)
  moreover from Cons.IH have "concat (map (\<lambda>(_, md). map snd (bufs md)) ys) =
      concat (map (\<lambda>(_, md). map snd (bufs md)) xs)" by (simp add: buffers_def)
  ultimately show ?case by (simp add: buffers_def split_def)
qed

lemma same_model_bytes:
  assumes "list_all2 (\<lambda>x y. fst y = fst x \<and> same_sizes (snd x) (snd y)) model model'"
  shows "(\<Sum>t\<leftarrow>parameters model'. nelement t * element_size t) =
         (\<Sum>t\<leftarrow>parameters model. nelement t * element_size t)"
  using assms
proof (induction model model' rule: list_all2_induct)
  case Nil
  show ?case by simp
next
  case (Cons x xs y ys)
  from Cons(1) have "(\<Sum>t\<leftarrow>map snd (params (snd y)). nelement t * element_size t) =
      (\<Sum>t\<leftarrow>map snd (params (snd x)). nelement t * element_size t)" by (simp add: same_sizes_def)
  moreover have "parameters (z # zs) = map snd (params (snd z)) @ parameters zs"
    for z :: "string \<times> 'a module" and zs
    by (simp add: parameters_def split_def)
  ultimately show ?case using Cons.IH by simp
qed

lemma pruned_model_same:
  assumes "convs_prunable model"
    and "\<And>n md. prunable md \<Longrightarrow> \<exists>md'. body n md = Inr md' \<and> same_sizes md md'"
  shows "\<exists>model'. prune_convs body model = Inr model' \<and>
           list_all2 (\<lambda>x y. fst y = fst x \<and> same_sizes (snd x) (snd y)) model model'"
proof (rule prune_convs_same)
  fix n md
  assume "(n, md) \<in> set model" "kind md = Conv2d"
  with assms(1) have "prunable md"
    by (auto simp: convs_prunable_def list_all_iff)
  then show "\<exists>md'. body n md = Inr md' \<and> same_sizes md md'" by (rule assms(2))
qed

lemma same_model_size_all_mb:
  assumes "list_all2 (\<lambda>x y. fst y = fst x \<and> same_sizes (snd x) (snd y)) model model'"
  shows "size_all_mb truediv model' = size_all_mb truediv model"
  using same_model_buffers[OF assms] same_model_bytes[OF assms]
  by (simp add: size_all_mb_sum)

text \<open>
  C9. Pruning the weight of every \<^verbatim>\<open>Conv2d\<close> module and removing the
  reparametrisation, as the pruning cell does for the local unstructured and the
  local structured variant, succeeds on a model whose convolutions are as
  \<^verbatim>\<open>nn.Conv2d\<close> builds them, and leaves the shape, element count and element
  byte size of every parameter and all buffers as they were; so the size report
  prints the size of the control for both pruned variants.
\<close>

theorem local_pruning_keeps_sizes:
  assumes "convs_prunable base_model_init"
  shows "\<exists>m1 m2.
     pruning_cell base_model_init choice1 choice2 (first_cell base_model_init) =
       Inr [(''control'', base_model_init), (''torch_local_unstruct'', m1),
            (''torch_local_struct'', m2)] \<and>
     (\<forall>n p. param_layout m1 n p = param_layout base_model_init n p) \<and>
     (\<forall>n p. param_layout m2 n p = param_layout base_model_init n p) \<and>
     buffers m1 = buffers base_model_init \<and> buffers m2 = buffers base_model_init \<and>
     size_lines truediv
       [(''control'', base_model_init), (''torch_local_unstruct'', m1), (''torch_local_struct'', m2)] =
     [SizeLine ''control'' (size_all_mb truediv base_model_init),
      SizeLine ''torch_local_unstruct'' (size_all_mb truediv base_model_init),
      SizeLine ''torch_local_struct'' (size_all_mb truediv base_model_init)]"
proof -
  let ?R = "\<lambda>x y. fst y = fst x \<and> same_sizes (snd x) (snd y)"
  from pruned_model_same[OF assms, of "unstruct_body choice1"] unstruct_body_same
  obtain m1 where r1: "prune_convs (unstruct_body choice1) base_model_init = Inr m1"
    and l1: "list_all2 ?R base_model_init m1" by blast
  from pruned_model_same[OF assms, of "struct_body choice2"] struct_body_same
  obtain m2 where r2: "prune_convs (struct_body choice2) base_model_init = Inr m2"
    and l2: "list_all2 ?R base_model_init m2" by blast
  have cell: "pruning_cell base_model_init choice1 choice2 (first_cell base_model_init) =
       Inr [(''control'', base_model_init), (''torch_local_unstruct'', m1),
            (''torch_local_struct'', m2)]"
    by (simp add: pruning_cell_def first_cell_def r1 r2)
  show ?thesis
    using cell same_model_layout[OF l1] same_model_layout[OF l2]
      same_model_buffers[OF l1] same_model_buffers[OF l2]
      same_model_size_all_mb[OF l1, of truediv] same_model_size_all_mb[OF l2, of truediv]
    by simp
qed

lemma example_prunable: "convs_prunable example_model"
  by (simp add: convs_prunable_def example_model_def example_conv_def example_bn_def prunable_def)

theorem local_pruning_keeps_sizes_witness:
  "convs_prunable example_model \<and>
   (\<exists>m1 m2.
     pruning_cell example_model (\<lambda>n i. i = 0) (\<lambda>n i. i = 1) (first_cell example_model) =
       Inr [(''control'', example_model), (''torch_local_unstruct'', m1),
            (''torch_local_struct'', m2)] \<and>
     size_lines (\<lambda>a b. (a, b))
       [(''control'', example_model), (''torch_local_unstruct'', m1), (''torch_local_struct'', m2)] =
     [SizeLine ''control'' (56, 1048576),
      SizeLine ''torch_local_unstruct'' (56, 1048576),
      SizeLine ''torch_local_struct'' (56, 1048576)])"
proof -
  have sz: "size_all_mb (\<lambda>a b. (a, b)) example_model = (56, 1048576)"
    by (simp add: size_all_mb_def parameters_def buffers_def example_model_def example_conv_def
        example_bn_def nelement_def)
  show ?thesis
    using local_pruning_keeps_sizes[OF example_prunable, of "\<lambda>n i. i = 0" "\<lambda>n i. i = 1" "\<lambda>a b. (a, b)"]
      example_prunable
    by (simp only: sz) blast
qed

section \<open>Properties of the benchmark comparator\<close>

text \<open>
  What a run of each loop leaves in the trace and in the notebook, for a run that
  returns and for a run that an exception ends; what it takes for every call of
  a batch to get the tensor as it was generated, and for the tensors generated
  to be those the seed determines.
\<close>

lemma length_draw: "length (draw lib g n dims) = n"
  by (induction n arbitrary: g) (auto split: prod.splits)

lemma seeds_append: "seeds (xs @ ys) = seeds xs @ seeds ys"
  by (induction xs rule: seeds.induct) simp_all

lemma generated_append: "generated (xs @ ys) = generated xs @ generated ys"
  by (induction xs rule: generated.induct) simp_all

lemma returned_append: "returned (xs @ ys) = returned xs @ returned ys"
  by (induction xs rule: returned.induct) simp_all

lemma calls_append: "calls (xs @ ys) = calls xs @ calls ys"
  by (induction xs rule: calls.induct) simp_all

lemma raised_append: "raised (xs @ ys) = raised xs @ raised ys"
  by (induction xs rule: raised.induct) simp_all

lemma printed_append: "printed (xs @ ys) = printed xs @ printed ys"
  by (induction xs rule: printed.induct) simp_all

lemma readings_timed:
  "seeds (map (\<lambda>l. Timed l x) ls) = []"
  "generated (map (\<lambda>l. Timed l x) ls) = []"
  "returned (map (\<lambda>l. Timed l x) ls) = ls"
  "calls (map (\<lambda>l. Timed l x) ls) = map (\<lambda>l. (l, x)) ls"
  "raised (map (\<lambda>l. Timed l x) ls) = []"
  "printed (map (\<lambda>l. Timed l x) ls) = []"
  by (induction ls) simp_all

lemma calls_returned: "raised evs = [] \<Longrightarrow> map fst (calls evs) = returned evs"
  by (induction evs rule: calls.induct) simp_all

lemma uses_latest_same_input:
  "generated evs = [] \<Longrightarrow> \<forall>c\<in>set (calls evs). snd c = x \<Longrightarrow>
     uses_latest (Some x) (evs @ rest) = uses_latest (Some x) rest"
  by (induction evs rule: calls.induct) simp_all

lemma calls_same_input:
  "\<forall>c\<in>set cs. snd c = x \<Longrightarrow> cs = map (\<lambda>l. (l, x)) (map fst cs)"
  by (induction cs) auto

lemma time_models_result:
  fixes nb :: "('g, 'a, 'r, 'f) notebook"
  shows "time_models lib x items nb = (items', nb', err) \<Longrightarrow>
     map fst items' = map fst items \<and> models nb' = models nb \<and>
     (\<exists>new. trace nb' = trace nb @ new \<and> seeds new = [] \<and> generated new = [] \<and>
        printed new = [] \<and>
        map fst (results nb') = map fst (results nb) @ returned new \<and>
        (case err of
           None \<Rightarrow> raised new = [] \<and> returned new = map fst items
         | Some e \<Rightarrow> (\<exists>before l x'. new = before @ [Raised l x' e] \<and> raised before = [])) \<and>
        ((\<forall>g m y. input_after (blocked_autorange lib g m y) = y) \<longrightarrow>
           (\<forall>c\<in>set (calls new). snd c = x)) \<and>
        ((\<forall>g m y. rng_after (blocked_autorange lib g m y) = g) \<longrightarrow> rng nb' = rng nb))"
proof (induction items arbitrary: x nb items' nb' err)
  case Nil
  then have "items' = []" "nb' = nb" "err = None" by simp_all
  then show ?case by (simp add: exI[of _ "[]"])
next
  case (Cons a items)
  obtain l m where a: "a = (l, m)" by (cases a)
  define t where "t = blocked_autorange lib (rng nb) m x"
  show ?case
  proof (cases "outcome t")
    case (Inl e)
    with Cons.prems have res: "items' = (l, model_after t) # items" "err = Some e"
      "nb' = nb\<lparr>rng := rng_after t, trace := trace nb @ [Raised l x e]\<rparr>"
      by (simp_all add: a t_def Let_def)
    define new :: "('a, 'r, 'f) event list" where "new = [Raised l x e]"
    have "\<exists>before l' x'. new = before @ [Raised l' x' e] \<and> raised before = []"
      by (rule exI[of _ "[]"]) (simp add: new_def)
    moreover have "(\<forall>g m y. rng_after (blocked_autorange lib g m y) = g) \<longrightarrow> rng nb' = rng nb"
      by (simp add: res t_def)
    ultimately have "trace nb' = trace nb @ new \<and> seeds new = [] \<and> generated new = [] \<and>
        printed new = [] \<and>
        map fst (results nb') = map fst (results nb) @ returned new \<and>
        (case err of
           None \<Rightarrow> raised new = [] \<and> returned new = map fst (a # items)
         | Some e \<Rightarrow> (\<exists>before l x'. new = before @ [Raised l x' e] \<and> raised before = [])) \<and>
        ((\<forall>g m y. input_after (blocked_autorange lib g m y) = y) \<longrightarrow>
           (\<forall>c\<in>set (calls new). snd c = x)) \<and>
        ((\<forall>g m y. rng_after (blocked_autorange lib g m y) = g) \<longrightarrow> rng nb' = rng nb)"
      by (simp add: res new_def)
    then have "\<exists>new. trace nb' = trace nb @ new \<and> seeds new = [] \<and> generated new = [] \<and>
        printed new = [] \<and>
        map fst (results nb') = map fst (results nb) @ returned new \<and>
        (case err of
           None \<Rightarrow> raised new = [] \<and> returned new = map fst (a # items)
         | Some e \<Rightarrow> (\<exists>before l x'. new = before @ [Raised l x' e] \<and> raised before = [])) \<and>
        ((\<forall>g m y. input_after (blocked_autorange lib g m y) = y) \<longrightarrow>
           (\<forall>c\<in>set (calls new). snd c = x)) \<and>
        ((\<forall>g m y. rng_after (blocked_autorange lib g m y) = g) \<longrightarrow> rng nb' = rng nb)"
      by (rule exI)
    then show ?thesis by (simp add: res a)
  next
    case (Inr r)
    let ?nb1 = "nb\<lparr>rng := rng_after t, results := results nb @ [(l, r)],
                    trace := trace nb @ [Timed l x]\<rparr>"
    obtain rest' nb2 err2 where rec: "time_models lib (input_after t) items ?nb1 = (rest', nb2, err2)"
      by (cases "time_models lib (input_after t) items ?nb1")
    with Cons.prems Inr have res: "items' = (l, model_after t) # rest'" "nb' = nb2" "err = err2"
      by (simp_all add: a t_def Let_def)
    from Cons.IH[OF rec] obtain new2 where ih:
      "map fst rest' = map fst items" "models nb2 = models ?nb1"
      "trace nb2 = trace ?nb1 @ new2" "seeds new2 = []" "generated new2 = []" "printed new2 = []"
      "map fst (results nb2) = map fst (results ?nb1) @ returned new2"
      "case err2 of
           None \<Rightarrow> raised new2 = [] \<and> returned new2 = map fst items
         | Some e \<Rightarrow> (\<exists>before l x'. new2 = before @ [Raised l x' e] \<and> raised before = [])"
      "(\<forall>g m y. input_after (blocked_autorange lib g m y) = y) \<longrightarrow>
           (\<forall>c\<in>set (calls new2). snd c = input_after t)"
      "(\<forall>g m y. rng_after (blocked_autorange lib g m y) = g) \<longrightarrow> rng nb2 = rng ?nb1"
      by blast
    define new where "new = Timed l x # new2"
    have c: "case err of
           None \<Rightarrow> raised new = [] \<and> returned new = map fst (a # items)
         | Some e \<Rightarrow> (\<exists>before l x'. new = before @ [Raised l x' e] \<and> raised before = [])"
    proof (cases err2)
      case None
      with ih(8) res show ?thesis by (simp add: new_def a)
    next
      case (Some e)
      with ih(8) obtain before l' x' where "new2 = before @ [Raised l' x' e]" "raised before = []"
        by auto
      then have "new = (Timed l x # before) @ [Raised l' x' e] \<and> raised (Timed l x # before) = []"
        by (simp add: new_def)
      then have "\<exists>before l x'. new = before @ [Raised l x' e] \<and> raised before = []" by blast
      with Some res show ?thesis by simp
    qed
    have i: "(\<forall>g m y. input_after (blocked_autorange lib g m y) = y) \<longrightarrow>
           (\<forall>c\<in>set (calls new). snd c = x)"
    proof
      assume p: "\<forall>g m y. input_after (blocked_autorange lib g m y) = y"
      then have "input_after t = x" by (simp add: t_def)
      with ih(9) p show "\<forall>c\<in>set (calls new). snd c = x" by (simp add: new_def)
    qed
    have g: "(\<forall>g m y. rng_after (blocked_autorange lib g m y) = g) \<longrightarrow> rng nb' = rng nb"
      using ih(10) by (simp add: res t_def)
    have "trace nb' = trace nb @ new \<and> seeds new = [] \<and> generated new = [] \<and>
        printed new = [] \<and>
        map fst (results nb') = map fst (results nb) @ returned new \<and>
        (case err of
           None \<Rightarrow> raised new = [] \<and> returned new = map fst (a # items)
         | Some e \<Rightarrow> (\<exists>before l x'. new = before @ [Raised l x' e] \<and> raised before = [])) \<and>
        ((\<forall>g m y. input_after (blocked_autorange lib g m y) = y) \<longrightarrow>
           (\<forall>c\<in>set (calls new). snd c = x)) \<and>
        ((\<forall>g m y. rng_after (blocked_autorange lib g m y) = g) \<longrightarrow> rng nb' = rng nb)"
      using ih(3-7) c i g by (simp add: res new_def)
    then have "\<exists>new. trace nb' = trace nb @ new \<and> seeds new = [] \<and> generated new = [] \<and>
        printed new = [] \<and>
        map fst (results nb') = map fst (results nb) @ returned new \<and>
        (case err of
           None \<Rightarrow> raised new = [] \<and> returned new = map fst (a # items)
         | Some e \<Rightarrow> (\<exists>before l x'. new = before @ [Raised l x' e] \<and> raised before = [])) \<and>
        ((\<forall>g m y. input_after (blocked_autorange lib g m y) = y) \<longrightarrow>
           (\<forall>c\<in>set (calls new). snd c = x)) \<and>
        ((\<forall>g m y. rng_after (blocked_autorange lib g m y) = g) \<longrightarrow> rng nb' = rng nb)"
      by (rule exI)
    then show ?thesis using ih(1,2) by (simp add: res a)
  qed
qed

lemma batch_loop_result:
  fixes nb :: "('g, 'a, 'r, 'f) notebook"
  shows "batch_loop lib n dims nb = (nb', err) \<Longrightarrow>
     map fst (models nb') = map fst (models nb) \<and>
     (\<exists>new. trace nb' = trace nb @ new \<and> seeds new = [] \<and> printed new = [] \<and>
        map fst (results nb') = map fst (results nb) @ returned new \<and>
        (case err of
           None \<Rightarrow> raised new = [] \<and> length (generated new) = n \<and>
                   returned new = concat (replicate n (map fst (models nb)))
         | Some e \<Rightarrow> (\<exists>before l x'. new = before @ [Raised l x' e] \<and> raised before = [])) \<and>
        ((\<forall>g m y. input_after (blocked_autorange lib g m y) = y) \<longrightarrow>
           (\<forall>cur. uses_latest cur new) \<and>
           (err = None \<longrightarrow>
              calls new = concat (map (\<lambda>x. map (\<lambda>l. (l, x)) (map fst (models nb))) (generated new)))) \<and>
        ((\<forall>g m y. rng_after (blocked_autorange lib g m y) = g) \<longrightarrow>
           generated new = take (length (generated new)) (draw lib (rng nb) n dims)))"
proof (induction n arbitrary: nb nb' err)
  case 0
  then have "nb' = nb" "err = None" by simp_all
  then show ?case by (simp add: exI[of _ "[]"])
next
  case (Suc n)
  let ?labels = "map fst (models nb)"
  obtain x0 g where rn: "randn lib (rng nb) dims = (x0, g)" by (cases "randn lib (rng nb) dims")
  define x where "x = to_device lib x0"
  let ?nb1 = "nb\<lparr>rng := g, trace := trace nb @ [Randn x]\<rparr>"
  obtain ms' nb2 err1 where tm: "time_models lib x (models ?nb1) ?nb1 = (ms', nb2, err1)"
    by (cases "time_models lib x (models ?nb1) ?nb1")
  from time_models_result[OF tm] obtain inner where tr0:
    "map fst ms' = map fst (models ?nb1)" "models nb2 = models ?nb1"
    "trace nb2 = trace ?nb1 @ inner" "seeds inner = []" "generated inner = []"
    "printed inner = []"
    "map fst (results nb2) = map fst (results ?nb1) @ returned inner"
    "case err1 of
       None \<Rightarrow> raised inner = [] \<and> returned inner = map fst (models ?nb1)
     | Some e \<Rightarrow> (\<exists>before l x'. inner = before @ [Raised l x' e] \<and> raised before = [])"
    "(\<forall>g m y. input_after (blocked_autorange lib g m y) = y) \<longrightarrow>
       (\<forall>c\<in>set (calls inner). snd c = x)"
    "(\<forall>g m y. rng_after (blocked_autorange lib g m y) = g) \<longrightarrow> rng nb2 = rng ?nb1"
    by blast
  have tr:
    "map fst ms' = ?labels" "models nb2 = models nb"
    "trace nb2 = trace nb @ Randn x # inner" "seeds inner = []" "generated inner = []"
    "printed inner = []"
    "map fst (results nb2) = map fst (results nb) @ returned inner"
    "case err1 of
       None \<Rightarrow> raised inner = [] \<and> returned inner = ?labels
     | Some e \<Rightarrow> (\<exists>before l x'. inner = before @ [Raised l x' e] \<and> raised before = [])"
    "(\<forall>g m y. input_after (blocked_autorange lib g m y) = y) \<longrightarrow>
       (\<forall>c\<in>set (calls inner). snd c = x)"
    "(\<forall>g m y. rng_after (blocked_autorange lib g m y) = g) \<longrightarrow> rng nb2 = g"
    using tr0 by (simp_all split: option.splits)
  have dr: "draw lib (rng nb) (Suc n) dims = x # draw lib g n dims"
    by (simp add: rn x_def)
  have ul: "uses_latest cur (Randn x # inner @ rest) = uses_latest (Some x) rest"
    if "\<forall>g m y. input_after (blocked_autorange lib g m y) = y" for cur rest
    using uses_latest_same_input[OF tr(5), of x rest] tr(9) that by simp
  show ?case
  proof (cases err1)
    case (Some e)
    with Suc.prems rn tm have res: "nb' = nb2\<lparr>models := ms'\<rparr>" "err = Some e"
      by (simp_all add: Let_def x_def)
    from tr(8) Some obtain before l x' where b: "inner = before @ [Raised l x' e]" "raised before = []"
      by auto
    define new where "new = Randn x # inner"
    have "new = (Randn x # before) @ [Raised l x' e] \<and> raised (Randn x # before) = []"
      using b by (simp add: new_def)
    then have c: "\<exists>before l x'. new = before @ [Raised l x' e] \<and> raised before = []" by blast
    have i: "\<forall>cur. uses_latest cur new"
      if "\<forall>g m y. input_after (blocked_autorange lib g m y) = y"
      using ul[OF that, of _ "[]"] by (simp add: new_def)
    have "trace nb' = trace nb @ new \<and> seeds new = [] \<and> printed new = [] \<and>
        map fst (results nb') = map fst (results nb) @ returned new \<and>
        (case err of
           None \<Rightarrow> raised new = [] \<and> length (generated new) = Suc n \<and>
                   returned new = concat (replicate (Suc n) (map fst (models nb)))
         | Some e \<Rightarrow> (\<exists>before l x'. new = before @ [Raised l x' e] \<and> raised before = [])) \<and>
        ((\<forall>g m y. input_after (blocked_autorange lib g m y) = y) \<longrightarrow>
           (\<forall>cur. uses_latest cur new) \<and>
           (err = None \<longrightarrow>
              calls new = concat (map (\<lambda>x. map (\<lambda>l. (l, x)) (map fst (models nb))) (generated new)))) \<and>
        ((\<forall>g m y. rng_after (blocked_autorange lib g m y) = g) \<longrightarrow>
           generated new = take (length (generated new)) (draw lib (rng nb) (Suc n) dims))"
      using tr(3,4,6,7) c i unfolding dr by (simp add: res new_def tr(5))
    then have "\<exists>new. trace nb' = trace nb @ new \<and> seeds new = [] \<and> printed new = [] \<and>
        map fst (results nb') = map fst (results nb) @ returned new \<and>
        (case err of
           None \<Rightarrow> raised new = [] \<and> length (generated new) = Suc n \<and>
                   returned new = concat (replicate (Suc n) (map fst (models nb)))
         | Some e \<Rightarrow> (\<exists>before l x'. new = before @ [Raised l x' e] \<and> raised before = [])) \<and>
        ((\<forall>g m y. input_after (blocked_autorange lib g m y) = y) \<longrightarrow>
           (\<forall>cur. uses_latest cur new) \<and>
           (err = None \<longrightarrow>
              calls new = concat (map (\<lambda>x. map (\<lambda>l. (l, x)) (map fst (models nb))) (generated new)))) \<and>
        ((\<forall>g m y. rng_after (blocked_autorange lib g m y) = g) \<longrightarrow>
           generated new = take (length (generated new)) (draw lib (rng nb) (Suc n) dims))"
      by (rule exI)
    then show ?thesis using tr(1) by (simp add: res)
  next
    case None
    let ?nb3 = "nb2\<lparr>models := ms'\<rparr>"
    from None Suc.prems rn tm have rec: "batch_loop lib n dims ?nb3 = (nb', err)"
      by (simp add: Let_def x_def)
    have l3: "map fst (models ?nb3) = ?labels" using tr(1) by simp
    from Suc.IH[OF rec] obtain later where ih0:
      "map fst (models nb') = map fst (models ?nb3)"
      "trace nb' = trace ?nb3 @ later" "seeds later = []" "printed later = []"
      "map fst (results nb') = map fst (results ?nb3) @ returned later"
      "case err of
           None \<Rightarrow> raised later = [] \<and> length (generated later) = n \<and>
                   returned later = concat (replicate n (map fst (models ?nb3)))
         | Some e \<Rightarrow> (\<exists>before l x'. later = before @ [Raised l x' e] \<and> raised before = [])"
      "(\<forall>g m y. input_after (blocked_autorange lib g m y) = y) \<longrightarrow>
           (\<forall>cur. uses_latest cur later) \<and>
           (err = None \<longrightarrow>
              calls later = concat (map (\<lambda>x. map (\<lambda>l. (l, x)) (map fst (models ?nb3))) (generated later)))"
      "(\<forall>g m y. rng_after (blocked_autorange lib g m y) = g) \<longrightarrow>
           generated later = take (length (generated later)) (draw lib (rng ?nb3) n dims)"
      by blast
    have ih:
      "map fst (models nb') = ?labels"
      "trace nb' = trace ?nb3 @ later" "seeds later = []" "printed later = []"
      "map fst (results nb') = map fst (results ?nb3) @ returned later"
      "case err of
           None \<Rightarrow> raised later = [] \<and> length (generated later) = n \<and>
                   returned later = concat (replicate n ?labels)
         | Some e \<Rightarrow> (\<exists>before l x'. later = before @ [Raised l x' e] \<and> raised before = [])"
      "(\<forall>g m y. input_after (blocked_autorange lib g m y) = y) \<longrightarrow>
           (\<forall>cur. uses_latest cur later) \<and>
           (err = None \<longrightarrow>
              calls later = concat (map (\<lambda>x. map (\<lambda>l. (l, x)) ?labels) (generated later)))"
      "(\<forall>g m y. rng_after (blocked_autorange lib g m y) = g) \<longrightarrow>
           generated later = take (length (generated later)) (draw lib (rng ?nb3) n dims)"
      using ih0 unfolding l3 by simp_all
    from tr(8) None have ri: "raised inner = []" "returned inner = ?labels" by simp_all
    define new where "new = Randn x # inner @ later"
    have c: "case err of
           None \<Rightarrow> raised new = [] \<and> length (generated new) = Suc n \<and>
                   returned new = concat (replicate (Suc n) ?labels)
         | Some e \<Rightarrow> (\<exists>before l x'. new = before @ [Raised l x' e] \<and> raised before = [])"
    proof (cases err)
      case None
      with ih(6) show ?thesis
        by (simp add: new_def raised_append generated_append returned_append ri tr(5))
    next
      case (Some e)
      with ih(6) obtain before l x' where "later = before @ [Raised l x' e]" "raised before = []"
        by auto
      then have "new = (Randn x # inner @ before) @ [Raised l x' e] \<and>
                 raised (Randn x # inner @ before) = []"
        by (simp add: new_def raised_append ri)
      then have "\<exists>before l x'. new = before @ [Raised l x' e] \<and> raised before = []" by blast
      with Some show ?thesis by simp
    qed
    have i: "(\<forall>g m y. input_after (blocked_autorange lib g m y) = y) \<longrightarrow>
           (\<forall>cur. uses_latest cur new) \<and>
           (err = None \<longrightarrow>
              calls new = concat (map (\<lambda>x. map (\<lambda>l. (l, x)) ?labels) (generated new)))"
    proof
      assume p: "\<forall>g m y. input_after (blocked_autorange lib g m y) = y"
      from tr(9) p have "\<forall>c\<in>set (calls inner). snd c = x" by simp
      then have "calls inner = map (\<lambda>l. (l, x)) (map fst (calls inner))"
        by (rule calls_same_input)
      then have ci: "calls inner = map (\<lambda>l. (l, x)) ?labels"
        using calls_returned[OF ri(1)] ri(2) by simp
      from ih(7) p have u: "\<forall>cur. uses_latest cur later"
        and cl: "err = None \<longrightarrow>
              calls later = concat (map (\<lambda>x. map (\<lambda>l. (l, x)) ?labels) (generated later))"
        by simp_all
      have "\<forall>cur. uses_latest cur new" using ul[OF p, of _ later] u by (simp add: new_def)
      moreover have "err = None \<longrightarrow>
              calls new = concat (map (\<lambda>x. map (\<lambda>l. (l, x)) ?labels) (generated new))"
        using cl by (simp add: new_def calls_append generated_append ci tr(5))
      ultimately show "(\<forall>cur. uses_latest cur new) \<and>
           (err = None \<longrightarrow>
              calls new = concat (map (\<lambda>x. map (\<lambda>l. (l, x)) ?labels) (generated new)))"
        by simp
    qed
    have g: "(\<forall>g m y. rng_after (blocked_autorange lib g m y) = g) \<longrightarrow>
           generated new = take (length (generated new)) (draw lib (rng nb) (Suc n) dims)"
    proof
      assume p: "\<forall>g m y. rng_after (blocked_autorange lib g m y) = g"
      from tr(10) p have "rng ?nb3 = g" by simp
      with ih(8) p have "generated later = take (length (generated later)) (draw lib g n dims)"
        by simp
      then show "generated new = take (length (generated new)) (draw lib (rng nb) (Suc n) dims)"
        unfolding dr by (simp add: new_def generated_append tr(5))
    qed
    have a: "trace nb' = trace nb @ new" "seeds new = []" "printed new = []"
      "map fst (results nb') = map fst (results nb) @ returned new"
      using tr(3,4,6,7) ih(2-5)
      by (simp_all add: new_def seeds_append printed_append returned_append)
    have "trace nb' = trace nb @ new \<and> seeds new = [] \<and> printed new = [] \<and>
        map fst (results nb') = map fst (results nb) @ returned new \<and>
        (case err of
           None \<Rightarrow> raised new = [] \<and> length (generated new) = Suc n \<and>
                   returned new = concat (replicate (Suc n) (map fst (models nb)))
         | Some e \<Rightarrow> (\<exists>before l x'. new = before @ [Raised l x' e] \<and> raised before = [])) \<and>
        ((\<forall>g m y. input_after (blocked_autorange lib g m y) = y) \<longrightarrow>
           (\<forall>cur. uses_latest cur new) \<and>
           (err = None \<longrightarrow>
              calls new = concat (map (\<lambda>x. map (\<lambda>l. (l, x)) (map fst (models nb))) (generated new)))) \<and>
        ((\<forall>g m y. rng_after (blocked_autorange lib g m y) = g) \<longrightarrow>
           generated new = take (length (generated new)) (draw lib (rng nb) (Suc n) dims))"
      using a c i g by (intro conjI)
    then have "\<exists>new. trace nb' = trace nb @ new \<and> seeds new = [] \<and> printed new = [] \<and>
        map fst (results nb') = map fst (results nb) @ returned new \<and>
        (case err of
           None \<Rightarrow> raised new = [] \<and> length (generated new) = Suc n \<and>
                   returned new = concat (replicate (Suc n) (map fst (models nb)))
         | Some e \<Rightarrow> (\<exists>before l x'. new = before @ [Raised l x' e] \<and> raised before = [])) \<and>
        ((\<forall>g m y. input_after (blocked_autorange lib g m y) = y) \<longrightarrow>
           (\<forall>cur. uses_latest cur new) \<and>
           (err = None \<longrightarrow>
              calls new = concat (map (\<lambda>x. map (\<lambda>l. (l, x)) (map fst (models nb))) (generated new)))) \<and>
        ((\<forall>g m y. rng_after (blocked_autorange lib g m y) = g) \<longrightarrow>
           generated new = take (length (generated new)) (draw lib (rng nb) (Suc n) dims))"
      by (rule exI)
    then show ?thesis using ih(1) by simp
  qed
qed

lemma uses_latest_print: "uses_latest cur (evs @ [Print p]) = uses_latest cur evs"
  by (induction cur evs rule: uses_latest.induct) simp_all

lemma compare_benchmarks_result:
  fixes nb :: "('g, 'a, 'r, 'f) notebook"
  shows "compare_benchmarks lib batches batch_size channels input_size nb = (nb', err) \<Longrightarrow>
     map fst (models nb') = map fst (models nb) \<and>
     (\<exists>new. trace nb' = trace nb @ ManualSeed 0 # new \<and> seeds new = [] \<and>
        map fst (results nb') = returned new \<and>
        (case err of
           None \<Rightarrow> raised new = [] \<and> printed new = [Table (merge (results nb'))] \<and>
                   length (generated new) = nat batches \<and>
                   returned new = concat (replicate (nat batches) (map fst (models nb)))
         | Some e \<Rightarrow> printed new = [] \<and>
                   (\<exists>before l x'. new = before @ [Raised l x' e] \<and> raised before = [])) \<and>
        ((\<forall>g m y. input_after (blocked_autorange lib g m y) = y) \<longrightarrow>
           (\<forall>cur. uses_latest cur new) \<and>
           (err = None \<longrightarrow>
              calls new = concat (map (\<lambda>x. map (\<lambda>l. (l, x)) (map fst (models nb))) (generated new)))) \<and>
        ((\<forall>g m y. rng_after (blocked_autorange lib g m y) = g) \<longrightarrow>
           generated new =
             take (length (generated new))
               (draw lib (manual_seed lib 0) (nat batches) (batch_size # channels # input_size))))"
proof -
  assume run: "compare_benchmarks lib batches batch_size channels input_size nb = (nb', err)"
  let ?nb2 = "nb\<lparr>results := [], rng := manual_seed lib 0, trace := trace nb @ [ManualSeed 0]\<rparr>"
  let ?dims = "batch_size # channels # input_size"
  let ?labels = "map fst (models nb)"
  obtain nb3 err3 where bl: "batch_loop lib (nat batches) ?dims ?nb2 = (nb3, err3)"
    by (cases "batch_loop lib (nat batches) ?dims ?nb2")
  from batch_loop_result[OF bl] obtain loop where r0:
    "map fst (models nb3) = map fst (models ?nb2)"
    "trace nb3 = trace ?nb2 @ loop" "seeds loop = []" "printed loop = []"
    "map fst (results nb3) = map fst (results ?nb2) @ returned loop"
    "case err3 of
       None \<Rightarrow> raised loop = [] \<and> length (generated loop) = nat batches \<and>
               returned loop = concat (replicate (nat batches) (map fst (models ?nb2)))
     | Some e \<Rightarrow> (\<exists>before l x'. loop = before @ [Raised l x' e] \<and> raised before = [])"
    "(\<forall>g m y. input_after (blocked_autorange lib g m y) = y) \<longrightarrow>
       (\<forall>cur. uses_latest cur loop) \<and>
       (err3 = None \<longrightarrow>
          calls loop = concat (map (\<lambda>x. map (\<lambda>l. (l, x)) (map fst (models ?nb2))) (generated loop)))"
    "(\<forall>g m y. rng_after (blocked_autorange lib g m y) = g) \<longrightarrow>
       generated loop = take (length (generated loop)) (draw lib (rng ?nb2) (nat batches) ?dims)"
    by blast
  have r:
    "map fst (models nb3) = ?labels"
    "trace nb3 = trace nb @ ManualSeed 0 # loop" "seeds loop = []" "printed loop = []"
    "map fst (results nb3) = returned loop"
    "case err3 of
       None \<Rightarrow> raised loop = [] \<and> length (generated loop) = nat batches \<and>
               returned loop = concat (replicate (nat batches) ?labels)
     | Some e \<Rightarrow> (\<exists>before l x'. loop = before @ [Raised l x' e] \<and> raised before = [])"
    "(\<forall>g m y. input_after (blocked_autorange lib g m y) = y) \<longrightarrow>
       (\<forall>cur. uses_latest cur loop) \<and>
       (err3 = None \<longrightarrow>
          calls loop = concat (map (\<lambda>x. map (\<lambda>l. (l, x)) ?labels) (generated loop)))"
    "(\<forall>g m y. rng_after (blocked_autorange lib g m y) = g) \<longrightarrow>
       generated loop = take (length (generated loop)) (draw lib (manual_seed lib 0) (nat batches) ?dims)"
    using r0 by (simp_all split: option.splits)
  show ?thesis
  proof (cases err3)
    case None
    with run bl have res: "nb' = nb3\<lparr>trace := trace nb3 @ [Print (Table (merge (results nb3)))]\<rparr>"
      "err = None"
      by (simp_all add: compare_benchmarks_def Let_def)
    define new where "new = loop @ [Print (Table (merge (results nb3)))]"
    have rd: "seeds new = seeds loop" "returned new = returned loop" "raised new = raised loop"
      "generated new = generated loop" "calls new = calls loop"
      "printed new = printed loop @ [Table (merge (results nb3))]"
      "uses_latest cur new = uses_latest cur loop" for cur
      by (simp_all add: new_def seeds_append returned_append raised_append generated_append
            calls_append printed_append uses_latest_print)
    have a: "trace nb' = trace nb @ ManualSeed 0 # new" "seeds new = []"
      "map fst (results nb') = returned new"
      using r(2,3,5) by (simp_all add: res rd) (simp add: new_def)
    have c: "case err of
           None \<Rightarrow> raised new = [] \<and> printed new = [Table (merge (results nb'))] \<and>
                   length (generated new) = nat batches \<and>
                   returned new = concat (replicate (nat batches) ?labels)
         | Some e \<Rightarrow> printed new = [] \<and>
                   (\<exists>before l x'. new = before @ [Raised l x' e] \<and> raised before = [])"
      using r(4,6) None by (simp add: res rd)
    have i: "(\<forall>g m y. input_after (blocked_autorange lib g m y) = y) \<longrightarrow>
           (\<forall>cur. uses_latest cur new) \<and>
           (err = None \<longrightarrow>
              calls new = concat (map (\<lambda>x. map (\<lambda>l. (l, x)) ?labels) (generated new)))"
      using r(7) None unfolding rd by simp
    have g: "(\<forall>g m y. rng_after (blocked_autorange lib g m y) = g) \<longrightarrow>
           generated new =
             take (length (generated new)) (draw lib (manual_seed lib 0) (nat batches) ?dims)"
      using r(8) unfolding rd .
    have "trace nb' = trace nb @ ManualSeed 0 # new \<and> seeds new = [] \<and>
        map fst (results nb') = returned new \<and>
        (case err of
           None \<Rightarrow> raised new = [] \<and> printed new = [Table (merge (results nb'))] \<and>
                   length (generated new) = nat batches \<and>
                   returned new = concat (replicate (nat batches) (map fst (models nb)))
         | Some e \<Rightarrow> printed new = [] \<and>
                   (\<exists>before l x'. new = before @ [Raised l x' e] \<and> raised before = [])) \<and>
        ((\<forall>g m y. input_after (blocked_autorange lib g m y) = y) \<longrightarrow>
           (\<forall>cur. uses_latest cur new) \<and>
           (err = None \<longrightarrow>
              calls new = concat (map (\<lambda>x. map (\<lambda>l. (l, x)) (map fst (models nb))) (generated new)))) \<and>
        ((\<forall>g m y. rng_after (blocked_autorange lib g m y) = g) \<longrightarrow>
           generated new =
             take (length (generated new))
               (draw lib (manual_seed lib 0) (nat batches) (batch_size # channels # input_size)))"
      using a c i g by (intro conjI)
    then have "\<exists>new. trace nb' = trace nb @ ManualSeed 0 # new \<and> seeds new = [] \<and>
        map fst (results nb') = returned new \<and>
        (case err of
           None \<Rightarrow> raised new = [] \<and> printed new = [Table (merge (results nb'))] \<and>
                   length (generated new) = nat batches \<and>
                   returned new = concat (replicate (nat batches) (map fst (models nb)))
         | Some e \<Rightarrow> printed new = [] \<and>
                   (\<exists>before l x'. new = before @ [Raised l x' e] \<and> raised before = [])) \<and>
        ((\<forall>g m y. input_after (blocked_autorange lib g m y) = y) \<longrightarrow>
           (\<forall>cur. uses_latest cur new) \<and>
           (err = None \<longrightarrow>
              calls new = concat (map (\<lambda>x. map (\<lambda>l. (l, x)) (map fst (models nb))) (generated new)))) \<and>
        ((\<forall>g m y. rng_after (blocked_autorange lib g m y) = g) \<longrightarrow>
           generated new =
             take (length (generated new))
               (draw lib (manual_seed lib 0) (nat batches) (batch_size # channels # input_size)))"
      by (rule exI)
    then show ?thesis using r(1) by (simp add: res)
  next
    case (Some e)
    with run bl have res: "nb' = nb3" "err = Some e"
      by (simp_all add: compare_benchmarks_def Let_def)
    have c: "case err of
           None \<Rightarrow> raised loop = [] \<and> printed loop = [Table (merge (results nb'))] \<and>
                   length (generated loop) = nat batches \<and>
                   returned loop = concat (replicate (nat batches) ?labels)
         | Some e \<Rightarrow> printed loop = [] \<and>
                   (\<exists>before l x'. loop = before @ [Raised l x' e] \<and> raised before = [])"
      using r(4,6) Some by (simp add: res)
    have i: "(\<forall>g m y. input_after (blocked_autorange lib g m y) = y) \<longrightarrow>
           (\<forall>cur. uses_latest cur loop) \<and>
           (err = None \<longrightarrow>
              calls loop = concat (map (\<lambda>x. map (\<lambda>l. (l, x)) ?labels) (generated loop)))"
      using r(7) by (simp add: res)
    have a: "trace nb' = trace nb @ ManualSeed 0 # loop" "seeds loop = []"
      "map fst (results nb') = returned loop"
      using r(2,3,5) by (simp_all add: res)
    have "trace nb' = trace nb @ ManualSeed 0 # loop \<and> seeds loop = [] \<and>
        map fst (results nb') = returned loop \<and>
        (case err of
           None \<Rightarrow> raised loop = [] \<and> printed loop = [Table (merge (results nb'))] \<and>
                   length (generated loop) = nat batches \<and>
                   returned loop = concat (replicate (nat batches) (map fst (models nb)))
         | Some e \<Rightarrow> printed loop = [] \<and>
                   (\<exists>before l x'. loop = before @ [Raised l x' e] \<and> raised before = [])) \<and>
        ((\<forall>g m y. input_after (blocked_autorange lib g m y) = y) \<longrightarrow>
           (\<forall>cur. uses_latest cur loop) \<and>
           (err = None \<longrightarrow>
              calls loop = concat (map (\<lambda>x. map (\<lambda>l. (l, x)) (map fst (models nb))) (generated loop)))) \<and>
        ((\<forall>g m y. rng_after (blocked_autorange lib g m y) = g) \<longrightarrow>
           generated loop =
             take (length (generated loop))
               (draw lib (manual_seed lib 0) (nat batches) (batch_size # channels # input_size)))"
      using a c i r(8) by (intro conjI)
    then have "\<exists>new. trace nb' = trace nb @ ManualSeed 0 # new \<and> seeds new = [] \<and>
        map fst (results nb') = returned new \<and>
        (case err of
           None \<Rightarrow> raised new = [] \<and> printed new = [Table (merge (results nb'))] \<and>
                   length (generated new) = nat batches \<and>
                   returned new = concat (replicate (nat batches) (map fst (models nb)))
         | Some e \<Rightarrow> printed new = [] \<and>
                   (\<exists>before l x'. new = before @ [Raised l x' e] \<and> raised before = [])) \<and>
        ((\<forall>g m y. input_after (blocked_autorange lib g m y) = y) \<longrightarrow>
           (\<forall>cur. uses_latest cur new) \<and>
           (err = None \<longrightarrow>
              calls new = concat (map (\<lambda>x. map (\<lambda>l. (l, x)) (map fst (models nb))) (generated new)))) \<and>
        ((\<forall>g m y. rng_after (blocked_autorange lib g m y) = g) \<longrightarrow>
           generated new =
             take (length (generated new))
               (draw lib (manual_seed lib 0) (nat batches) (batch_size # channels # input_size)))"
      by (rule exI)
    then show ?thesis using r(1) by (simp add: res)
  qed
qed

text \<open>What the loops leave in the registry.\<close>

lemma time_models_models:
  "time_models lib x items nb = (items', nb', err) \<Longrightarrow>
     list_all2 (\<lambda>a b. fst b = fst a \<and> (snd b = snd a \<or> timed_call lib (snd a) (snd b))) items items' \<and>
     (err = None \<longrightarrow> list_all2 (\<lambda>a b. fst b = fst a \<and> timed_call lib (snd a) (snd b)) items items')"
proof (induction items arbitrary: x nb items' nb' err)
  case Nil
  then show ?case by simp
next
  case (Cons a items)
  obtain l m where a: "a = (l, m)" by (cases a)
  define t where "t = blocked_autorange lib (rng nb) m x"
  have tc: "timed_call lib m (model_after t)"
    unfolding timed_call_def t_def by blast
  show ?case
  proof (cases "outcome t")
    case (Inl e)
    with Cons.prems have res: "items' = (l, model_after t) # items" "err = Some e"
      by (simp_all add: a t_def Let_def)
    have "list_all2 (\<lambda>a b. fst b = fst a \<and> (snd b = snd a \<or> timed_call lib (snd a) (snd b))) items items"
      by (simp add: list_all2_refl)
    with tc show ?thesis by (simp add: res a)
  next
    case (Inr r)
    let ?nb1 = "nb\<lparr>rng := rng_after t, results := results nb @ [(l, r)],
                    trace := trace nb @ [Timed l x]\<rparr>"
    obtain rest' nb2 err2 where rec: "time_models lib (input_after t) items ?nb1 = (rest', nb2, err2)"
      by (cases "time_models lib (input_after t) items ?nb1")
    with Cons.prems Inr have res: "items' = (l, model_after t) # rest'" "err = err2"
      by (simp_all add: a t_def Let_def)
    from Cons.IH[OF rec] tc show ?thesis by (simp add: res a)
  qed
qed

lemma batch_loop_models:
  "batch_loop lib n dims nb = (nb', err) \<Longrightarrow>
     list_all2 (\<lambda>a b. fst b = fst a \<and> rtranclp (timed_call lib) (snd a) (snd b)) (models nb) (models nb') \<and>
     (err = None \<longrightarrow>
        list_all2 (\<lambda>a b. (timed_call lib ^^ n) (snd a) (snd b)) (models nb) (models nb'))"
proof (induction n arbitrary: nb nb' err)
  case 0
  then have "nb' = nb" by simp
  then show ?case by (simp add: list_all2_refl)
next
  case (Suc n)
  obtain x0 g where rn: "randn lib (rng nb) dims = (x0, g)" by (cases "randn lib (rng nb) dims")
  define x where "x = to_device lib x0"
  let ?nb1 = "nb\<lparr>rng := g, trace := trace nb @ [Randn x]\<rparr>"
  obtain ms' nb2 err1 where tm: "time_models lib x (models ?nb1) ?nb1 = (ms', nb2, err1)"
    by (cases "time_models lib x (models ?nb1) ?nb1")
  from time_models_models[OF tm] have
    m1: "list_all2 (\<lambda>a b. fst b = fst a \<and> (snd b = snd a \<or> timed_call lib (snd a) (snd b)))
           (models nb) ms'"
    and m2: "err1 = None \<longrightarrow>
           list_all2 (\<lambda>a b. fst b = fst a \<and> timed_call lib (snd a) (snd b)) (models nb) ms'"
    by simp_all
  have m1': "list_all2 (\<lambda>a b. fst b = fst a \<and> rtranclp (timed_call lib) (snd a) (snd b)) (models nb) ms'"
    by (rule list_all2_mono[OF m1]) auto
  show ?case
  proof (cases err1)
    case (Some e)
    with Suc.prems rn tm have res: "nb' = nb2\<lparr>models := ms'\<rparr>" "err = Some e"
      by (simp_all add: Let_def x_def)
    with m1' show ?thesis by simp
  next
    case None
    let ?nb3 = "nb2\<lparr>models := ms'\<rparr>"
    from None Suc.prems rn tm have rec: "batch_loop lib n dims ?nb3 = (nb', err)"
      by (simp add: Let_def x_def)
    from Suc.IH[OF rec] have
      i1: "list_all2 (\<lambda>a b. fst b = fst a \<and> rtranclp (timed_call lib) (snd a) (snd b)) ms' (models nb')"
      and i2: "err = None \<longrightarrow>
          list_all2 (\<lambda>a b. (timed_call lib ^^ n) (snd a) (snd b)) ms' (models nb')"
      by simp_all
    have "list_all2 (\<lambda>a b. fst b = fst a \<and> rtranclp (timed_call lib) (snd a) (snd b))
            (models nb) (models nb')"
      by (rule list_all2_trans[OF _ m1' i1]) auto
    moreover have "list_all2 (\<lambda>a b. (timed_call lib ^^ Suc n) (snd a) (snd b)) (models nb) (models nb')"
      if "err = None"
    proof -
      from m2 None have s: "list_all2 (\<lambda>a b. fst b = fst a \<and> timed_call lib (snd a) (snd b)) (models nb) ms'"
        by simp
      from i2 that have t: "list_all2 (\<lambda>a b. (timed_call lib ^^ n) (snd a) (snd b)) ms' (models nb')"
        by simp
      show ?thesis
        by (rule list_all2_trans[OF _ s t]) (blast intro: relpowp_Suc_I2)
    qed
    ultimately show ?thesis by blast
  qed
qed

lemma compare_benchmarks_models:
  "compare_benchmarks lib batches batch_size channels input_size nb = (nb', err) \<Longrightarrow>
     list_all2 (\<lambda>a b. fst b = fst a \<and> rtranclp (timed_call lib) (snd a) (snd b)) (models nb) (models nb') \<and>
     (err = None \<longrightarrow>
        list_all2 (\<lambda>a b. (timed_call lib ^^ nat batches) (snd a) (snd b)) (models nb) (models nb'))"
proof -
  assume run: "compare_benchmarks lib batches batch_size channels input_size nb = (nb', err)"
  let ?nb2 = "nb\<lparr>results := [], rng := manual_seed lib 0, trace := trace nb @ [ManualSeed 0]\<rparr>"
  let ?dims = "batch_size # channels # input_size"
  obtain nb3 err3 where bl: "batch_loop lib (nat batches) ?dims ?nb2 = (nb3, err3)"
    by (cases "batch_loop lib (nat batches) ?dims ?nb2")
  have "models nb' = models nb3 \<and> err = err3"
    using run bl by (cases err3) (auto simp: compare_benchmarks_def Let_def)
  with batch_loop_models[OF bl] show ?thesis by simp
qed

lemma unchanged_by_timed_calls:
  assumes "\<forall>g m x. model_after (blocked_autorange lib g m x) = m"
    and "list_all2 (\<lambda>a b. fst b = fst a \<and> rtranclp (timed_call lib) (snd a) (snd b)) ms ms'"
  shows "ms' = ms"
proof -
  have eq: "m' = m" if "rtranclp (timed_call lib) m m'" for m m'
    using that by (induction rule: rtranclp_induct) (auto simp: timed_call_def assms(1))
  have "list_all2 (\<lambda>a b. a = b) ms ms'"
    by (rule list_all2_mono[OF assms(2)]) (auto simp: prod_eq_iff dest: eq)
  then have "ms = ms'" unfolding list_all2_eq[symmetric] .
  then show ?thesis by simp
qed

lemma draw_timer: "draw (lib\<lparr>blocked_autorange := t\<rparr>) g n dims = draw lib g n dims"
  by (induction n arbitrary: g) simp_all

text \<open>
  C4, as the code has it. \<^verbatim>\<open>compare_benchmarks\<close> sets the seed once, before any
  input is generated, and never again; a run that returns has generated
  \<open>batches\<close> tensors and has timed every variant once after each, in the order
  of the registry. Every timer of a batch is given the one tensor object of that
  batch: when the timed forward passes do not write their input, every timed
  call is made with the tensor generated last, as it was generated, so within a
  batch every variant is timed on the same tensor. When the timed forward passes
  do not draw from the default generator, the tensors generated are an initial
  segment of the sequence that the seed and the batch parameters determine,
  whatever the registry, the generator state before and the number of passes
  the timer runs; so two invocations with the same batch parameters that both
  return have generated the same sequence.
\<close>

theorem seeded_once_inputs_shared_when_passes_keep_them:
  fixes nb :: "('g, 'a, 'r, 'f) notebook" and nb2 :: "('g, 'a, 'r, 'f) notebook"
  assumes "compare_benchmarks lib batches batch_size channels input_size nb = (nb', err)"
    and "compare_benchmarks (lib\<lparr>blocked_autorange := timer2\<rparr>) batches batch_size channels input_size nb2 =
           (nb2', err2)"
  shows "\<exists>new new2.
     trace nb' = trace nb @ ManualSeed 0 # new \<and> seeds new = [] \<and>
     trace nb2' = trace nb2 @ ManualSeed 0 # new2 \<and> seeds new2 = [] \<and>
     (err = None \<longrightarrow>
        length (generated new) = nat batches \<and>
        returned new = concat (replicate (nat batches) (map fst (models nb)))) \<and>
     ((\<forall>g m y. input_after (blocked_autorange lib g m y) = y) \<longrightarrow>
        uses_latest None new \<and>
        (err = None \<longrightarrow>
           calls new = concat (map (\<lambda>x. map (\<lambda>l. (l, x)) (map fst (models nb))) (generated new)))) \<and>
     ((\<forall>g m y. rng_after (blocked_autorange lib g m y) = g) \<and> (\<forall>g m y. rng_after (timer2 g m y) = g) \<longrightarrow>
        generated new = take (length (generated new)) (draw lib (manual_seed lib 0) (nat batches) (batch_size # channels # input_size)) \<and>
        generated new2 = take (length (generated new2)) (draw lib (manual_seed lib 0) (nat batches) (batch_size # channels # input_size)) \<and>
        (err = None \<and> err2 = None \<longrightarrow> generated new2 = generated new))"
proof -
  from compare_benchmarks_result[OF assms(1)] obtain new where n1:
    "trace nb' = trace nb @ ManualSeed 0 # new" "seeds new = []"
    "case err of
       None \<Rightarrow> raised new = [] \<and> printed new = [Table (merge (results nb'))] \<and>
               length (generated new) = nat batches \<and>
               returned new = concat (replicate (nat batches) (map fst (models nb)))
     | Some e \<Rightarrow> printed new = [] \<and>
               (\<exists>before l x'. new = before @ [Raised l x' e] \<and> raised before = [])"
    "(\<forall>g m y. input_after (blocked_autorange lib g m y) = y) \<longrightarrow>
       (\<forall>cur. uses_latest cur new) \<and>
       (err = None \<longrightarrow>
          calls new = concat (map (\<lambda>x. map (\<lambda>l. (l, x)) (map fst (models nb))) (generated new)))"
    "(\<forall>g m y. rng_after (blocked_autorange lib g m y) = g) \<longrightarrow>
       generated new =
         take (length (generated new))
           (draw lib (manual_seed lib 0) (nat batches) (batch_size # channels # input_size))"
    by blast
  from compare_benchmarks_result[OF assms(2)] obtain new2 where n2:
    "trace nb2' = trace nb2 @ ManualSeed 0 # new2" "seeds new2 = []"
    "case err2 of
       None \<Rightarrow> raised new2 = [] \<and> printed new2 = [Table (merge (results nb2'))] \<and>
               length (generated new2) = nat batches \<and>
               returned new2 = concat (replicate (nat batches) (map fst (models nb2)))
     | Some e \<Rightarrow> printed new2 = [] \<and>
               (\<exists>before l x'. new2 = before @ [Raised l x' e] \<and> raised before = [])"
    "(\<forall>g m y. input_after (blocked_autorange (lib\<lparr>blocked_autorange := timer2\<rparr>) g m y) = y) \<longrightarrow>
       (\<forall>cur. uses_latest cur new2) \<and>
       (err2 = None \<longrightarrow>
          calls new2 = concat (map (\<lambda>x. map (\<lambda>l. (l, x)) (map fst (models nb2))) (generated new2)))"
    "(\<forall>g m y. rng_after (blocked_autorange (lib\<lparr>blocked_autorange := timer2\<rparr>) g m y) = g) \<longrightarrow>
       generated new2 =
         take (length (generated new2))
           (draw (lib\<lparr>blocked_autorange := timer2\<rparr>) (manual_seed (lib\<lparr>blocked_autorange := timer2\<rparr>) 0) (nat batches) (batch_size # channels # input_size))"
    by blast
  have a: "err = None \<longrightarrow>
        length (generated new) = nat batches \<and>
        returned new = concat (replicate (nat batches) (map fst (models nb)))"
    using n1(3) by (cases err) simp_all
  have a2: "err2 = None \<longrightarrow> length (generated new2) = nat batches"
    using n2(3) by (cases err2) simp_all
  have i: "(\<forall>g m y. input_after (blocked_autorange lib g m y) = y) \<longrightarrow>
        uses_latest None new \<and>
        (err = None \<longrightarrow>
           calls new = concat (map (\<lambda>x. map (\<lambda>l. (l, x)) (map fst (models nb))) (generated new)))"
    using n1(4) by simp
  have g: "(\<forall>g m y. rng_after (blocked_autorange lib g m y) = g) \<and> (\<forall>g m y. rng_after (timer2 g m y) = g) \<longrightarrow>
        generated new = take (length (generated new)) (draw lib (manual_seed lib 0) (nat batches) (batch_size # channels # input_size)) \<and>
        generated new2 = take (length (generated new2)) (draw lib (manual_seed lib 0) (nat batches) (batch_size # channels # input_size)) \<and>
        (err = None \<and> err2 = None \<longrightarrow> generated new2 = generated new)"
  proof
    assume p: "(\<forall>g m y. rng_after (blocked_autorange lib g m y) = g) \<and> (\<forall>g m y. rng_after (timer2 g m y) = g)"
    from p have p1: "\<forall>g m y. rng_after (blocked_autorange lib g m y) = g"
      and p2: "\<forall>g m y. rng_after (timer2 g m y) = g"
      by simp_all
    have s: "blocked_autorange (lib\<lparr>blocked_autorange := timer2\<rparr>) = timer2"
      "manual_seed (lib\<lparr>blocked_autorange := timer2\<rparr>) = manual_seed lib"
      by simp_all
    from n1(5) p1 have g1: "generated new = take (length (generated new)) (draw lib (manual_seed lib 0) (nat batches) (batch_size # channels # input_size))"
      by (rule mp)
    from n2(5)[unfolded draw_timer s] p2
    have g2: "generated new2 = take (length (generated new2)) (draw lib (manual_seed lib 0) (nat batches) (batch_size # channels # input_size))"
      by (rule mp)
    have e: "generated new2 = generated new" if "err = None" "err2 = None"
    proof -
      from that a a2 have l: "length (generated new) = nat batches"
        "length (generated new2) = nat batches"
        by simp_all
      note e1 = g1[unfolded l] and e2 = g2[unfolded l]
      show ?thesis by (simp only: e1 e2)
    qed
    show "generated new = take (length (generated new)) (draw lib (manual_seed lib 0) (nat batches) (batch_size # channels # input_size)) \<and>
        generated new2 = take (length (generated new2)) (draw lib (manual_seed lib 0) (nat batches) (batch_size # channels # input_size)) \<and>
        (err = None \<and> err2 = None \<longrightarrow> generated new2 = generated new)"
    proof (intro conjI impI)
      show "generated new = take (length (generated new)) (draw lib (manual_seed lib 0) (nat batches) (batch_size # channels # input_size))" by (rule g1)
      show "generated new2 = take (length (generated new2)) (draw lib (manual_seed lib 0) (nat batches) (batch_size # channels # input_size))" by (rule g2)
      show "generated new2 = generated new" if "err = None \<and> err2 = None"
        using that by (intro e) simp_all
    qed
  qed
  have "trace nb' = trace nb @ ManualSeed 0 # new \<and> seeds new = [] \<and>
     trace nb2' = trace nb2 @ ManualSeed 0 # new2 \<and> seeds new2 = [] \<and>
     (err = None \<longrightarrow>
        length (generated new) = nat batches \<and>
        returned new = concat (replicate (nat batches) (map fst (models nb)))) \<and>
     ((\<forall>g m y. input_after (blocked_autorange lib g m y) = y) \<longrightarrow>
        uses_latest None new \<and>
        (err = None \<longrightarrow>
           calls new = concat (map (\<lambda>x. map (\<lambda>l. (l, x)) (map fst (models nb))) (generated new)))) \<and>
     ((\<forall>g m y. rng_after (blocked_autorange lib g m y) = g) \<and> (\<forall>g m y. rng_after (timer2 g m y) = g) \<longrightarrow>
        generated new = take (length (generated new)) (draw lib (manual_seed lib 0) (nat batches) (batch_size # channels # input_size)) \<and>
        generated new2 = take (length (generated new2)) (draw lib (manual_seed lib 0) (nat batches) (batch_size # channels # input_size)) \<and>
        (err = None \<and> err2 = None \<longrightarrow> generated new2 = generated new))"
    using n1(1,2) n2(1,2) a i g by (intro conjI)
  then show ?thesis by (intro exI)
qed

lemma accepts_example_model:
  "accepts example_model x = (length (shape x) = 4 \<and> shape x ! 1 = 1)"
  by (simp add: accepts_def example_model_def example_conv_def)

lemma example_timers_keep:
  "\<forall>g m y. input_after (blocked_autorange quiet_lib g m y) = y"
  "\<forall>g m y. rng_after (blocked_autorange quiet_lib g m y) = g"
  "\<forall>g m y. model_after (blocked_autorange quiet_lib g m y) = m"
  "\<forall>g m y. rng_after (blocked_autorange (bn_lib passes) g m y) = g"
  by (simp_all add: quiet_lib_def bn_lib_def example_lib_def)

lemma example_runs_return:
  "snd (compare_benchmarks quiet_lib 2 1 1 [1, 1]
         (example_notebook [(''a'', example_model), (''b'', example_model)])) = None"
  "snd (compare_benchmarks (quiet_lib\<lparr>blocked_autorange := blocked_autorange (bn_lib 2)\<rparr>) 2 1 1 [1, 1]
         ((example_notebook [(''c'', example_model)])\<lparr>rng := 99\<rparr>)) = None"
  by code_simp+

theorem seeded_once_inputs_shared_when_passes_keep_them_witness:
  "(\<forall>g m y. input_after (blocked_autorange quiet_lib g m y) = y) \<and>
   (\<forall>g m y. rng_after (blocked_autorange quiet_lib g m y) = g) \<and>
   (\<forall>g m y. rng_after (blocked_autorange (bn_lib 2) g m y) = g) \<and>
   snd (compare_benchmarks quiet_lib 2 1 1 [1, 1]
         (example_notebook [(''a'', example_model), (''b'', example_model)])) = None \<and>
   snd (compare_benchmarks (quiet_lib\<lparr>blocked_autorange := blocked_autorange (bn_lib 2)\<rparr>) 2 1 1 [1, 1]
         ((example_notebook [(''c'', example_model)])\<lparr>rng := 99\<rparr>)) = None \<and>
   (\<exists>new new2.
      trace (fst (compare_benchmarks quiet_lib 2 1 1 [1, 1]
         (example_notebook [(''a'', example_model), (''b'', example_model)]))) =
        ManualSeed 0 # new \<and>
      trace (fst (compare_benchmarks (quiet_lib\<lparr>blocked_autorange := blocked_autorange (bn_lib 2)\<rparr>) 2 1 1 [1, 1]
         ((example_notebook [(''c'', example_model)])\<lparr>rng := 99\<rparr>))) =
        ManualSeed 0 # new2 \<and>
      length (generated new) = 2 \<and> generated new2 = generated new \<and>
      calls new =
        concat (map (\<lambda>x. [(''a'', x), (''b'', x)]) (generated new)))"
proof -
  let ?nb = "example_notebook [(''a'', example_model), (''b'', example_model)]"
  let ?nb2 = "(example_notebook [(''c'', example_model)])\<lparr>rng := 99\<rparr>"
  let ?lib2 = "quiet_lib\<lparr>blocked_autorange := blocked_autorange (bn_lib 2)\<rparr>"
  let ?r1 = "compare_benchmarks quiet_lib 2 1 1 [1, 1] ?nb"
  let ?r2 = "compare_benchmarks ?lib2 2 1 1 [1, 1] ?nb2"
  have r1: "?r1 = (fst ?r1, snd ?r1)" by simp
  have r2: "?r2 = (fst ?r2, snd ?r2)" by simp
  have t: "trace ?nb = []" "trace ?nb2 = []" "map fst (models ?nb) = [''a'', ''b'']"
    by (simp_all add: example_notebook_def)
  note keep = example_timers_keep(1,2) example_timers_keep(4)[of 2]
  note ret = example_runs_return
  from seeded_once_inputs_shared_when_passes_keep_them[OF r1 r2] obtain new new2 where n:
    "trace (fst ?r1) = trace ?nb @ ManualSeed 0 # new"
    "trace (fst ?r2) = trace ?nb2 @ ManualSeed 0 # new2"
    "snd ?r1 = None \<longrightarrow>
       length (generated new) = nat 2 \<and>
       returned new = concat (replicate (nat 2) (map fst (models ?nb)))"
    "(\<forall>g m y. input_after (blocked_autorange quiet_lib g m y) = y) \<longrightarrow>
       uses_latest None new \<and>
       (snd ?r1 = None \<longrightarrow>
          calls new = concat (map (\<lambda>x. map (\<lambda>l. (l, x)) (map fst (models ?nb))) (generated new)))"
    "(\<forall>g m y. rng_after (blocked_autorange quiet_lib g m y) = g) \<and>
     (\<forall>g m y. rng_after (blocked_autorange (bn_lib 2) g m y) = g) \<longrightarrow>
       generated new =
         take (length (generated new)) (draw quiet_lib (manual_seed quiet_lib 0) (nat 2) [1, 1, 1, 1]) \<and>
       generated new2 =
         take (length (generated new2)) (draw quiet_lib (manual_seed quiet_lib 0) (nat 2) [1, 1, 1, 1]) \<and>
       (snd ?r1 = None \<and> snd ?r2 = None \<longrightarrow> generated new2 = generated new)"
    by (elim exE conjE) (rule that)
  from n(3) ret(1) have l: "length (generated new) = 2" by simp
  from n(4) keep(1) ret(1)
  have "calls new = concat (map (\<lambda>x. map (\<lambda>l. (l, x)) (map fst (models ?nb))) (generated new))"
    by blast
  then have c: "calls new = concat (map (\<lambda>x. [(''a'', x), (''b'', x)]) (generated new))"
    unfolding t by simp
  from n(5) keep(2,3) ret have e: "generated new2 = generated new" by blast
  have "trace (fst ?r1) = ManualSeed 0 # new \<and> trace (fst ?r2) = ManualSeed 0 # new2 \<and>
      length (generated new) = 2 \<and> generated new2 = generated new \<and>
      calls new = concat (map (\<lambda>x. [(''a'', x), (''b'', x)]) (generated new))"
    using n(1,2) l e c unfolding t by (intro conjI) simp_all
  then have "\<exists>new new2.
      trace (fst ?r1) = ManualSeed 0 # new \<and> trace (fst ?r2) = ManualSeed 0 # new2 \<and>
      length (generated new) = 2 \<and> generated new2 = generated new \<and>
      calls new = concat (map (\<lambda>x. [(''a'', x), (''b'', x)]) (generated new))"
    by (intro exI)
  with keep ret show ?thesis by (intro conjI)
qed

text \<open>
  C4 as stated fails. When the forward pass of a variant writes its input in
  place, the variant timed after it in the batch is given other bytes than the
  tensor generated. When the forward passes draw from the default generator,
  every tensor after the first depends on the number of passes run: two
  invocations on the same notebook with the same parameters, in which the timer
  runs 1000 and 1001 passes, generate other tensors, and so do two invocations
  on registries of one and of two such variants.
\<close>

theorem inputs_not_shared_when_passes_write_or_draw:
  "snd (compare_benchmarks clamp_lib 1 1 1 [1, 1]
         (example_notebook [(''a'', example_model), (''b'', example_model)])) = None \<and>
   generated (trace (fst (compare_benchmarks clamp_lib 1 1 1 [1, 1]
         (example_notebook [(''a'', example_model), (''b'', example_model)])))) =
     [\<lparr>shape = [1, 1, 1, 1], element_size = 4, elems = [0]\<rparr>] \<and>
   calls (trace (fst (compare_benchmarks clamp_lib 1 1 1 [1, 1]
         (example_notebook [(''a'', example_model), (''b'', example_model)])))) =
     [(''a'', \<lparr>shape = [1, 1, 1, 1], element_size = 4, elems = [0]\<rparr>),
      (''b'', \<lparr>shape = [1, 1, 1, 1], element_size = 4, elems = [1]\<rparr>)] \<and>
   snd (compare_benchmarks (dropout_lib 1000) 2 1 1 [1, 1]
         (example_notebook [(''a'', example_model)])) = None \<and>
   snd (compare_benchmarks (dropout_lib 1001) 2 1 1 [1, 1]
         (example_notebook [(''a'', example_model)])) = None \<and>
   snd (compare_benchmarks (dropout_lib 1000) 2 1 1 [1, 1]
         (example_notebook [(''a'', example_model), (''b'', example_model)])) = None \<and>
   generated (trace (fst (compare_benchmarks (dropout_lib 1000) 2 1 1 [1, 1]
         (example_notebook [(''a'', example_model)])))) =
     [\<lparr>shape = [1, 1, 1, 1], element_size = 4, elems = [0]\<rparr>,
      \<lparr>shape = [1, 1, 1, 1], element_size = 4, elems = [1001]\<rparr>] \<and>
   generated (trace (fst (compare_benchmarks (dropout_lib 1001) 2 1 1 [1, 1]
         (example_notebook [(''a'', example_model)])))) =
     [\<lparr>shape = [1, 1, 1, 1], element_size = 4, elems = [0]\<rparr>,
      \<lparr>shape = [1, 1, 1, 1], element_size = 4, elems = [1002]\<rparr>] \<and>
   generated (trace (fst (compare_benchmarks (dropout_lib 1000) 2 1 1 [1, 1]
         (example_notebook [(''a'', example_model), (''b'', example_model)])))) =
     [\<lparr>shape = [1, 1, 1, 1], element_size = 4, elems = [0]\<rparr>,
      \<lparr>shape = [1, 1, 1, 1], element_size = 4, elems = [2001]\<rparr>]"
  by (simp add: compare_benchmarks_def Let_def example_notebook_def clamp_lib_def dropout_lib_def
        example_lib_def counter_randn_def accepts_example_model numeral_2_eq_2)

text \<open>
  C8. When the inference call of a variant raises during \<^verbatim>\<open>compare_benchmarks\<close>,
  the call to \<^verbatim>\<open>compare_benchmarks\<close> ends with that exception; the raising call is
  the last thing that happened, so no later variant or batch is timed; nothing
  has been printed, so there is no table; and \<^verbatim>\<open>results\<close> holds the measurements of
  the calls that returned before it and no other. A run ends with an exception
  only in this way.
\<close>

theorem raising_variant_aborts_comparison:
  fixes nb :: "('g, 'a, 'r, 'f) notebook"
  assumes run: "compare_benchmarks lib batches batch_size channels input_size nb = (nb', err)"
  shows "\<exists>new. trace nb' = trace nb @ new \<and>
     (err = None \<longleftrightarrow> raised new = []) \<and>
     (\<forall>e. e \<in> set (raised new) \<longrightarrow>
        err = Some e \<and> printed new = [] \<and>
        (\<exists>before l x. new = before @ [Raised l x e] \<and> raised before = [] \<and>
           map fst (results nb') = returned before))"
proof -
  from compare_benchmarks_result[OF run] obtain loop where r:
    "trace nb' = trace nb @ ManualSeed 0 # loop"
    "map fst (results nb') = returned loop"
    "case err of
       None \<Rightarrow> raised loop = [] \<and> printed loop = [Table (merge (results nb'))] \<and>
               length (generated loop) = nat batches \<and>
               returned loop = concat (replicate (nat batches) (map fst (models nb)))
     | Some e \<Rightarrow> printed loop = [] \<and>
               (\<exists>before l x'. loop = before @ [Raised l x' e] \<and> raised before = [])"
    by blast
  define new where "new = ManualSeed 0 # loop"
  have tr: "trace nb' = trace nb @ new" using r(1) by (simp add: new_def)
  show ?thesis
  proof (cases err)
    case None
    with r(3) have ra: "raised new = []" by (simp add: new_def)
    have "trace nb' = trace nb @ new \<and>
     (err = None \<longleftrightarrow> raised new = []) \<and>
     (\<forall>e. e \<in> set (raised new) \<longrightarrow>
        err = Some e \<and> printed new = [] \<and>
        (\<exists>before l x. new = before @ [Raised l x e] \<and> raised before = [] \<and>
           map fst (results nb') = returned before))"
      using tr ra None by simp
    then show ?thesis by (rule exI)
  next
    case (Some e)
    with r(3) obtain before0 l x where b: "loop = before0 @ [Raised l x e]" "raised before0 = []"
      and pl: "printed loop = []"
      by auto
    define before where "before = ManualSeed 0 # before0"
    have nw: "new = before @ [Raised l x e]" by (simp add: new_def before_def b(1))
    have rb: "raised before = []" by (simp add: before_def b(2))
    have pb: "printed new = []" by (simp add: new_def pl)
    have rt: "map fst (results nb') = returned before"
      using r(2) by (simp add: b(1) before_def returned_append)
    have rn: "raised new = [e]" by (simp add: nw raised_append rb)
    have "\<exists>before l x. new = before @ [Raised l x e] \<and> raised before = [] \<and>
           map fst (results nb') = returned before"
    proof (intro exI conjI)
      show "new = before @ [Raised l x e]" by (rule nw)
      show "raised before = []" by (rule rb)
      show "map fst (results nb') = returned before" by (rule rt)
    qed
    then have "trace nb' = trace nb @ new \<and>
     (err = None \<longleftrightarrow> raised new = []) \<and>
     (\<forall>e. e \<in> set (raised new) \<longrightarrow>
        err = Some e \<and> printed new = [] \<and>
        (\<exists>before l x. new = before @ [Raised l x e] \<and> raised before = [] \<and>
           map fst (results nb') = returned before))"
      using tr rn pb Some by simp
    then show ?thesis by (rule exI)
  qed
qed

lemma example_run_raises:
  "compare_benchmarks quiet_lib 2 1 1 [1, 1]
     (example_notebook [(''a'', example_model), (''b'', []), (''c'', example_model)]) =
   (\<lparr>rng = 1, models = [(''a'', example_model), (''b'', []), (''c'', example_model)],
      results = [(''a'', ())],
      trace = [ManualSeed 0,
               Randn \<lparr>shape = [1, 1, 1, 1], element_size = 4, elems = [0]\<rparr>,
               Timed ''a'' \<lparr>shape = [1, 1, 1, 1], element_size = 4, elems = [0]\<rparr>,
               Raised ''b'' \<lparr>shape = [1, 1, 1, 1], element_size = 4, elems = [0]\<rparr>
                 (Error ''RuntimeError'')]\<rparr>,
    Some (Error ''RuntimeError''))"
  by code_simp

theorem raising_variant_aborts_comparison_witness:
  "Error ''RuntimeError'' \<in>
     set (raised (trace (fst (compare_benchmarks quiet_lib 2 1 1 [1, 1]
       (example_notebook [(''a'', example_model), (''b'', []), (''c'', example_model)]))))) \<and>
   snd (compare_benchmarks quiet_lib 2 1 1 [1, 1]
       (example_notebook [(''a'', example_model), (''b'', []), (''c'', example_model)])) =
     Some (Error ''RuntimeError'') \<and>
   printed (trace (fst (compare_benchmarks quiet_lib 2 1 1 [1, 1]
       (example_notebook [(''a'', example_model), (''b'', []), (''c'', example_model)])))) = [] \<and>
   map fst (results (fst (compare_benchmarks quiet_lib 2 1 1 [1, 1]
       (example_notebook [(''a'', example_model), (''b'', []), (''c'', example_model)])))) = [''a'']"
proof -
  let ?nb = "example_notebook [(''a'', example_model), (''b'', []), (''c'', example_model)]"
  let ?run = "compare_benchmarks quiet_lib 2 1 1 [1, 1] ?nb"
  have t: "trace ?nb = []" by (simp add: example_notebook_def)
  have split: "?run = (fst ?run, snd ?run)" by simp
  from raising_variant_aborts_comparison[OF split] obtain new where
    n: "trace (fst ?run) = trace ?nb @ new"
       "\<forall>e. e \<in> set (raised new) \<longrightarrow> snd ?run = Some e \<and> printed new = [] \<and>
          (\<exists>before l x. new = before @ [Raised l x e] \<and> raised before = [] \<and>
             map fst (results (fst ?run)) = returned before)"
    by blast
  have new: "new = trace (fst ?run)" using n(1) unfolding t by simp
  have m: "Error ''RuntimeError'' \<in> set (raised (trace (fst ?run)))"
    unfolding example_run_raises by simp
  have r: "map fst (results (fst ?run)) = [''a'']"
    unfolding example_run_raises by simp
  from n(2) m have "snd ?run = Some (Error ''RuntimeError'') \<and> printed (trace (fst ?run)) = []"
    unfolding new by blast
  with m r show ?thesis by blast
qed

lemma merge_labels: "map fst (merge rs) = first_seen (map fst rs)"
  by (simp add: merge_def comp_def)

lemma first_seen_repeated:
  assumes "distinct ls" "0 < n"
  shows "first_seen (concat (replicate n ls)) = ls"
proof -
  from assms(2) obtain m where n: "n = Suc m" by (cases n) auto
  have "set (first_seen (concat (replicate m ls))) \<subseteq> set ls"
    by (auto simp: first_seen_set)
  then have "filter (\<lambda>k. k \<notin> set ls) (first_seen (concat (replicate m ls))) = []"
    by (auto simp: filter_empty_conv)
  then show ?thesis using assms(1) by (simp add: n first_seen_append first_seen_id)
qed

lemma length_filter_repeated:
  "length (filter P (concat (replicate n xs))) = n * length (filter P xs)"
  by (induction n) simp_all

lemma merge_column_length:
  assumes "distinct ls" "map fst rs = concat (replicate n ls)" "c \<in> set (merge rs)"
  shows "length (snd c) = n"
proof -
  from assms(3) obtain d where d: "d \<in> set (first_seen (map fst rs))"
    and c: "c = (d, map snd (filter (\<lambda>(d', _). d' = d) rs))"
    by (auto simp: merge_def)
  have "length (snd c) = length (filter (\<lambda>d'. d' = d) (map fst rs))"
    by (simp add: c filter_map comp_def split_def)
  also have "\<dots> = n * length (filter (\<lambda>d'. d' = d) ls)"
    by (simp add: assms(2) length_filter_repeated)
  also have "d \<in> set ls" using d assms(2) by (auto simp: first_seen_set split: if_splits)
  then have "length (filter (\<lambda>d'. d' = d) ls) = 1"
    using assms(1) by (induction ls) (auto simp: filter_empty_conv)
  finally show ?thesis by simp
qed

lemma size_lines_labels: "size_labels (size_lines truediv ms) = map fst ms"
  by (induction ms) auto

lemma latency_labels_size_lines: "latency_labels (size_lines truediv ms) = []"
  by (induction ms) auto

text \<open>
  C1. For every registry (a dictionary, so its labels are distinct) and every
  positive number of batches, a run of \<^verbatim>\<open>compare_benchmarks\<close> that returns,
  followed by \<^verbatim>\<open>compare_modelsize\<close>, prints one table and then the size lines;
  the table has exactly one latency column per label of the registry, each
  pooling the \<open>batches\<close> measurements of that label, and there is exactly one
  size line per label; both lists of labels are the registry's labels, in the
  registry's order.
\<close>

theorem one_latency_and_one_size_record_per_label:
  fixes nb :: "('g, 'a, 'r, 'f) notebook"
  assumes run: "compare_benchmarks lib batches batch_size channels input_size nb = (nb', None)"
    and pos: "0 < batches"
    and dict: "distinct (map fst (models nb))"
  shows "\<exists>new.
     trace (compare_modelsize truediv nb') = trace nb @ new \<and>
     printed new = Table (merge (results nb')) # size_lines truediv (models nb') \<and>
     latency_labels (printed new) = map fst (models nb) \<and>
     size_labels (printed new) = map fst (models nb) \<and>
     (\<forall>c \<in> set (merge (results nb')). length (snd c) = nat batches)"
proof -
  define ls where "ls = map fst (models nb)"
  from compare_benchmarks_result[OF run] obtain loop where r0:
    "map fst (models nb') = map fst (models nb)"
    "trace nb' = trace nb @ ManualSeed 0 # loop"
    "map fst (results nb') = returned loop"
    "case None :: error option of
       None \<Rightarrow> raised loop = [] \<and> printed loop = [Table (merge (results nb'))] \<and>
               length (generated loop) = nat batches \<and>
               returned loop = concat (replicate (nat batches) (map fst (models nb)))
     | Some e \<Rightarrow> printed loop = [] \<and>
               (\<exists>before l x'. loop = before @ [Raised l x' e] \<and> raised before = [])"
    by blast
  from r0(4) have r: "printed loop = [Table (merge (results nb'))]"
    "returned loop = concat (replicate (nat batches) ls)"
    by (simp_all add: ls_def)
  define new :: "('a, 'r, 'f) event list"
    where "new = ManualSeed 0 # loop @ map Print (size_lines truediv (models nb'))"
  have pm: "printed (map Print lns) = lns" for lns :: "('r, 'f) line list"
    by (induction lns) simp_all
  have tr: "trace (compare_modelsize truediv nb') = trace nb @ new"
    using r0(2) by (simp add: compare_modelsize_def new_def)
  have pr: "printed new = Table (merge (results nb')) # size_lines truediv (models nb')"
    by (simp add: new_def printed_append r(1) pm)
  have ml: "map fst (merge (results nb')) = ls"
    using dict pos by (simp add: merge_labels r0(3) r(2) first_seen_repeated ls_def)
  have ll: "latency_labels (printed new) = ls"
    by (simp add: pr ml latency_labels_size_lines)
  have sl: "size_labels (printed new) = ls"
    using r0(1) by (simp add: pr size_lines_labels ls_def)
  have cl: "\<forall>c \<in> set (merge (results nb')). length (snd c) = nat batches"
    using merge_column_length[of ls "results nb'" "nat batches"] dict r0(3) r(2) by (simp add: ls_def)
  have "trace (compare_modelsize truediv nb') = trace nb @ new \<and>
     printed new = Table (merge (results nb')) # size_lines truediv (models nb') \<and>
     latency_labels (printed new) = ls \<and> size_labels (printed new) = ls \<and>
     (\<forall>c \<in> set (merge (results nb')). length (snd c) = nat batches)"
    using tr pr ll sl cl by simp
  then show ?thesis unfolding ls_def by (rule exI)
qed

lemma example_cell_returns:
  "snd (compare_benchmarks quiet_lib 1 1 1 [2, 2]
         (example_notebook [(''a'', example_model), (''b'', example_model)])) = None"
  by code_simp

theorem one_latency_and_one_size_record_per_label_witness:
  "(0::int) < 1 \<and>
   distinct (map fst (models (example_notebook [(''a'', example_model), (''b'', example_model)]))) \<and>
   latency_labels (printed (trace (compare_modelsize (\<lambda>a b. (a, b))
     (fst (compare_benchmarks quiet_lib 1 1 1 [2, 2]
            (example_notebook [(''a'', example_model), (''b'', example_model)])))))) = [''a'', ''b''] \<and>
   size_labels (printed (trace (compare_modelsize (\<lambda>a b. (a, b))
     (fst (compare_benchmarks quiet_lib 1 1 1 [2, 2]
            (example_notebook [(''a'', example_model), (''b'', example_model)])))))) = [''a'', ''b'']"
proof -
  let ?nb = "example_notebook [(''a'', example_model), (''b'', example_model)]"
  let ?run = "compare_benchmarks quiet_lib 1 1 1 [2, 2] ?nb"
  have run: "?run = (fst ?run, None)"
    using example_cell_returns by (simp add: prod_eq_iff)
  have pos: "(0::int) < 1" by simp
  have m: "map fst (models ?nb) = [''a'', ''b'']" and t: "trace ?nb = []"
    by (simp_all add: example_notebook_def)
  have dict: "distinct (map fst (models ?nb))" unfolding m by simp
  from one_latency_and_one_size_record_per_label[OF run pos dict, of "\<lambda>a b. (a, b)"]
  obtain new where
    "trace (compare_modelsize (\<lambda>a b. (a, b)) (fst ?run)) = trace ?nb @ new"
    "latency_labels (printed new) = map fst (models ?nb)"
    "size_labels (printed new) = map fst (models ?nb)"
    by blast
  then have "latency_labels (printed (trace (compare_modelsize (\<lambda>a b. (a, b)) (fst ?run)))) = [''a'', ''b'']"
    "size_labels (printed (trace (compare_modelsize (\<lambda>a b. (a, b)) (fst ?run)))) = [''a'', ''b'']"
    unfolding m t by simp_all
  with pos dict show ?thesis by blast
qed

text \<open>
  C10, as the code has it. \<^verbatim>\<open>compare_modelsize\<close> leaves the registry, every
  model, the generator and the measurements as they were. \<^verbatim>\<open>compare_benchmarks\<close>
  leaves the labels of the registry and their order as they were and writes no
  model itself: the model under a label after the run is the model that was
  under it before, as the timed calls made on it, one after the other, left it;
  after a run that returns these are \<open>batches\<close> timed calls on every model. So
  when the timed forward passes leave the models as they were, so does the run.
\<close>

theorem reports_write_models_only_through_timed_calls:
  "models (compare_modelsize truediv nb) = models nb \<and>
   rng (compare_modelsize truediv nb) = rng nb \<and>
   results (compare_modelsize truediv nb) = results nb \<and>
   map fst (models (fst (compare_benchmarks lib batches batch_size channels input_size nb))) =
     map fst (models nb) \<and>
   list_all2 (\<lambda>a b. fst b = fst a \<and> rtranclp (timed_call lib) (snd a) (snd b))
     (models nb) (models (fst (compare_benchmarks lib batches batch_size channels input_size nb))) \<and>
   (snd (compare_benchmarks lib batches batch_size channels input_size nb) = None \<longrightarrow>
      list_all2 (\<lambda>a b. (timed_call lib ^^ nat batches) (snd a) (snd b))
        (models nb) (models (fst (compare_benchmarks lib batches batch_size channels input_size nb)))) \<and>
   ((\<forall>g m x. model_after (blocked_autorange lib g m x) = m) \<longrightarrow>
      models (fst (compare_benchmarks lib batches batch_size channels input_size nb)) = models nb)"
proof -
  let ?run = "compare_benchmarks lib batches batch_size channels input_size nb"
  have run: "?run = (fst ?run, snd ?run)" by simp
  have a: "map fst (models (fst ?run)) = map fst (models nb)"
    using compare_benchmarks_result[OF run] by (rule conjunct1)
  from compare_benchmarks_models[OF run] have
    m: "list_all2 (\<lambda>a b. fst b = fst a \<and> rtranclp (timed_call lib) (snd a) (snd b))
          (models nb) (models (fst ?run))"
    and k: "snd ?run = None \<longrightarrow>
          list_all2 (\<lambda>a b. (timed_call lib ^^ nat batches) (snd a) (snd b))
            (models nb) (models (fst ?run))"
    by (rule conjunct1, rule conjunct2)
  have f: "(\<forall>g m x. model_after (blocked_autorange lib g m x) = m) \<longrightarrow>
      models (fst ?run) = models nb"
  proof
    assume "\<forall>g m x. model_after (blocked_autorange lib g m x) = m"
    then show "models (fst ?run) = models nb" using m by (rule unchanged_by_timed_calls)
  qed
  have s: "models (compare_modelsize truediv nb) = models nb"
    "rng (compare_modelsize truediv nb) = rng nb"
    "results (compare_modelsize truediv nb) = results nb"
    by (simp_all add: compare_modelsize_def)
  from s a m k f show ?thesis by (intro conjI)
qed

lemma example_registry_run_returns:
  "snd (compare_benchmarks quiet_lib 2 1 1 [2, 2]
         (example_notebook [(''a'', example_model), (''b'', example_model)])) = None"
  by code_simp

theorem reports_write_models_only_through_timed_calls_witness:
  "(\<forall>g m x. model_after (blocked_autorange quiet_lib g m x) = m) \<and>
   snd (compare_benchmarks quiet_lib 2 1 1 [2, 2]
         (example_notebook [(''a'', example_model), (''b'', example_model)])) = None \<and>
   list_all2 (\<lambda>a b. (timed_call quiet_lib ^^ 2) (snd a) (snd b))
     [(''a'', example_model), (''b'', example_model)]
     (models (fst (compare_benchmarks quiet_lib 2 1 1 [2, 2]
        (example_notebook [(''a'', example_model), (''b'', example_model)])))) \<and>
   models (fst (compare_benchmarks quiet_lib 2 1 1 [2, 2]
     (example_notebook [(''a'', example_model), (''b'', example_model)]))) =
   [(''a'', example_model), (''b'', example_model)]"
proof -
  let ?nb = "example_notebook [(''a'', example_model), (''b'', example_model)]"
  let ?run = "compare_benchmarks quiet_lib 2 1 1 [2, 2] ?nb"
  have ms: "models ?nb = [(''a'', example_model), (''b'', example_model)]"
    by (simp add: example_notebook_def)
  note t = reports_write_models_only_through_timed_calls
             [of "\<lambda>a b. (a, b)" ?nb quiet_lib 2 1 1 "[2, 2]"]
  from t have k: "snd ?run = None \<longrightarrow>
      list_all2 (\<lambda>a b. (timed_call quiet_lib ^^ nat 2) (snd a) (snd b)) (models ?nb) (models (fst ?run))"
    by (elim conjE)
  from t have f: "(\<forall>g m x. model_after (blocked_autorange quiet_lib g m x) = m) \<longrightarrow>
      models (fst ?run) = models ?nb"
    by (elim conjE)
  from k example_registry_run_returns
  have k': "list_all2 (\<lambda>a b. (timed_call quiet_lib ^^ 2) (snd a) (snd b))
     [(''a'', example_model), (''b'', example_model)] (models (fst ?run))"
    unfolding ms by simp
  from f example_timers_keep(3)
  have f': "models (fst ?run) = [(''a'', example_model), (''b'', example_model)]"
    unfolding ms by (rule mp)
  from example_timers_keep(3) example_registry_run_returns k' f' show ?thesis
    by (intro conjI)
qed

lemma bn_forward_passes:
  "(bn_forward ^^ n) example_model =
     [(''conv1'', example_conv),
      (''bn1'', example_bn\<lparr>bufs :=
         [(''running_mean'', \<lparr>shape = [2], element_size = 4, elems = [0, 0]\<rparr>),
          (''running_var'', \<lparr>shape = [2], element_size = 4, elems = [1, 1]\<rparr>),
          (''num_batches_tracked'', \<lparr>shape = [], element_size = 8, elems = [int n]\<rparr>)]\<rparr>)]"
  by (induction n) (simp_all add: bn_forward_def example_model_def example_conv_def example_bn_def)

lemma bn_run:
  "compare_benchmarks (bn_lib passes) 1 1 1 [2, 2]
     (example_notebook [(''control'', example_model)]) =
   (\<lparr>rng = 1, models = [(''control'', (bn_forward ^^ passes) example_model)],
      results = [(''control'', ())],
      trace = [ManualSeed 0,
               Randn \<lparr>shape = [1, 1, 2, 2], element_size = 4, elems = [0, 0, 0, 0]\<rparr>,
               Timed ''control'' \<lparr>shape = [1, 1, 2, 2], element_size = 4, elems = [0, 0, 0, 0]\<rparr>,
               Print (Table [(''control'', [()])])]\<rparr>,
    None)"
  by (simp add: compare_benchmarks_def Let_def example_notebook_def bn_lib_def example_lib_def
        counter_randn_def accepts_example_model merge_def eval_nat_numeral)

text \<open>
  C10 as stated fails: a model in training mode, as the notebook registers it,
  has other buffers after \<^verbatim>\<open>compare_benchmarks\<close> than before. Here one batch of
  one image with the one channel the model takes is timed, the timer running
  1000 forward passes; the run returns and the model's \<open>num_batches_tracked\<close>
  has gone from 0 to 1000.
\<close>

theorem benchmark_run_writes_batchnorm_buffers:
  "snd (compare_benchmarks (bn_lib 1000) 1 1 1 [2, 2]
         (example_notebook [(''control'', example_model)])) = None \<and>
   map fst (models (fst (compare_benchmarks (bn_lib 1000) 1 1 1 [2, 2]
         (example_notebook [(''control'', example_model)])))) = [''control''] \<and>
   map elems (buffers example_model) = [[0, 0], [1, 1], [0]] \<and>
   map elems (buffers (snd (hd (models (fst (compare_benchmarks (bn_lib 1000) 1 1 1 [2, 2]
         (example_notebook [(''control'', example_model)]))))))) = [[0, 0], [1, 1], [1000]]"
  unfolding bn_run bn_forward_passes
  by (simp add: buffers_def example_model_def example_conv_def example_bn_def)

section \<open>Properties of the training driver\<close>

lemma emit_simps [simp]:
  "log (emit ev st) = ev # log st"
  "running_loss (emit ev st) = running_loss st"
  "world (emit ev st) = world st"
  by (simp_all add: emit_def)

lemma history_emit [simp]: "history (emit ev st) = history st @ [ev]"
  by (simp add: history_def)

lemma history_update [simp]:
  "history (st\<lparr>world := w\<rparr>) = history st"
  "history (st\<lparr>running_loss := r\<rparr>) = history st"
  by (simp_all add: history_def)

lemma train_step_result:
  "train_step lib epoch i st dat = (st', err) \<Longrightarrow>
     (case err of
        None \<Rightarrow>
          (\<exists>l. history st' = history st @
                 [MoveToDevice, Project, ZeroGrad, Forward, Criterion, Backward, OptStep,
                  Accumulate l] @
                 (if i mod 2000 = 1999
                  then [Report (epoch + 1) (i + 1) (fdiv lib (fadd lib (running_loss st) l) 2000), Reset]
                  else []) \<and>
               running_loss st' =
                 (if i mod 2000 = 1999 then fzero lib else fadd lib (running_loss st) l))
      | Some e \<Rightarrow>
          running_loss st' = running_loss st \<and>
          (history st' = history st @ [MoveToDevice] \<or>
           history st' = history st @ [MoveToDevice, Project, ZeroGrad] \<or>
           history st' = history st @ [MoveToDevice, Project, ZeroGrad, Forward] \<or>
           history st' = history st @ [MoveToDevice, Project, ZeroGrad, Forward, Criterion] \<or>
           history st' = history st @ [MoveToDevice, Project, ZeroGrad, Forward, Criterion, Backward]))"
  unfolding train_step_def Let_def
  by (auto split: sum.splits prod.splits if_splits)

lemma steps_loop_invariant:
  assumes step: "\<And>i st dat st' err. P i st \<Longrightarrow> train_step lib epoch i st dat = (st', err) \<Longrightarrow>
                   (case err of None \<Rightarrow> P (Suc i) st' | Some e \<Rightarrow> Q st')"
    and "P i st"
    and "steps_loop lib epoch i st ds = (st', err)"
  shows "case err of None \<Rightarrow> P (i + length ds) st' | Some e \<Rightarrow> Q st'"
  using assms(2,3)
proof (induction ds arbitrary: i st)
  case Nil
  then show ?case by simp
next
  case (Cons dat ds)
  obtain st1 err1 where s1: "train_step lib epoch i st dat = (st1, err1)"
    by (cases "train_step lib epoch i st dat")
  note h = step[OF Cons.prems(1) s1]
  show ?case
  proof (cases err1)
    case None
    with Cons.prems(2) s1 have rec: "steps_loop lib epoch (Suc i) st1 ds = (st', err)" by simp
    from h None have "P (Suc i) st1" by simp
    from Cons.IH[OF this rec] show ?thesis by (simp split: option.splits)
  next
    case (Some e)
    with Cons.prems(2) s1 have "st' = st1" "err = Some e" by simp_all
    with h Some show ?thesis by simp
  qed
qed

lemma epochs_loop_invariant:
  assumes step: "\<And>epoch i st dat st' err. P i st \<Longrightarrow> train_step lib epoch i st dat = (st', err) \<Longrightarrow>
                   (case err of None \<Rightarrow> P (Suc i) st' | Some e \<Rightarrow> Q st')"
    and start: "\<And>st. R st \<Longrightarrow> P 0 (emit Reset (st\<lparr>running_loss := fzero lib\<rparr>))"
    and finish: "\<And>i st. P i st \<Longrightarrow> R st"
    and "R st"
    and "epochs_loop lib trainloader epochs st = (st', err)"
  shows "case err of None \<Rightarrow> R st' | Some e \<Rightarrow> Q st'"
  using assms(4,5)
proof (induction epochs arbitrary: st)
  case Nil
  then show ?case by simp
next
  case (Cons epoch epochs)
  let ?st0 = "emit Reset (st\<lparr>running_loss := fzero lib\<rparr>)"
  obtain st1 err1 where s1: "steps_loop lib epoch 0 ?st0 (trainloader epoch) = (st1, err1)"
    by (cases "steps_loop lib epoch 0 ?st0 (trainloader epoch)")
  have h: "case err1 of None \<Rightarrow> P (0 + length (trainloader epoch)) st1 | Some e \<Rightarrow> Q st1"
    using step start[OF Cons.prems(1)] s1 by (rule steps_loop_invariant)
  show ?case
  proof (cases err1)
    case None
    with Cons.prems(2) s1 have rec: "epochs_loop lib trainloader epochs st1 = (st', err)" by simp
    from h None have "R st1" by (simp add: finish)
    from Cons.IH[OF this rec] show ?thesis .
  next
    case (Some e)
    with Cons.prems(2) s1 have "st' = st1" "err = Some e" by simp_all
    with h Some show ?thesis by simp
  qed
qed

lemma train_invariant:
  assumes step: "\<And>epoch i st dat st' err. P i st \<Longrightarrow> train_step lib epoch i st dat = (st', err) \<Longrightarrow>
                   (case err of None \<Rightarrow> P (Suc i) st' | Some e \<Rightarrow> Q st')"
    and start: "\<And>st. R st \<Longrightarrow> P 0 (emit Reset (st\<lparr>running_loss := fzero lib\<rparr>))"
    and finish: "\<And>i st. P i st \<Longrightarrow> R st"
    and init: "R \<lparr>world = w, running_loss = fzero lib, log = []\<rparr>"
    and final: "\<And>st. R st \<Longrightarrow> Q (emit Finished st)"
  shows "Q (fst (train lib trainloader w))"
proof -
  let ?st0 = "\<lparr>world = w, running_loss = fzero lib, log = []\<rparr>"
  obtain st1 err1 where e1: "epochs_loop lib trainloader [0, 1] ?st0 = (st1, err1)"
    by (cases "epochs_loop lib trainloader [0, 1] ?st0")
  have h: "case err1 of None \<Rightarrow> R st1 | Some e \<Rightarrow> Q st1"
    using step start finish init e1 by (rule epochs_loop_invariant)
  show ?thesis
  proof (cases err1)
    case None
    with h have "R st1" by simp
    then have "Q (emit Finished st1)" by (rule final)
    with e1 None show ?thesis by (simp add: train_def)
  next
    case (Some e)
    with h e1 show ?thesis by (simp add: train_def)
  qed
qed

lemma follow_append:
  "follow order k (xs @ ys) =
     (case follow order k xs of None \<Rightarrow> None | Some k' \<Rightarrow> follow order k' ys)"
  by (induction xs arbitrary: k) simp_all

lemma window_after_append:
  "window_after lib starts sn (xs @ ys) = window_after lib starts (window_after lib starts sn xs) ys"
  by (induction xs arbitrary: sn) simp_all

lemma window_means_append:
  "window_means lib starts full sn (xs @ ys) =
     (window_means lib starts full sn xs \<and>
      window_means lib starts full (window_after lib starts sn xs) ys)"
  by (induction xs arbitrary: sn) simp_all

lemma reports_then_reset_append:
  "reports_then_reset xs \<Longrightarrow> reports_then_reset (xs @ ys) = reports_then_reset ys"
  by (induction xs rule: reports_then_reset.induct) (auto split: list.splits step_event.splits)

lemma mod_2000_next:
  "i mod 2000 = 1999 \<Longrightarrow> Suc i mod 2000 = 0"
  "i mod 2000 \<noteq> 1999 \<Longrightarrow> Suc i mod 2000 = Suc (i mod 2000)"
  by (simp_all add: mod_Suc)

lemma follow_complete_step:
  "follow code_order 0
     (map kind_of ([MoveToDevice, Project, ZeroGrad, Forward, Criterion, Backward, OptStep,
                    Accumulate l] @ (if b then [Report e n v, Reset] else []))) = Some 0"
  by (simp add: code_order_def)

lemma follow_partial_step:
  "\<exists>k. follow code_order 0 (map kind_of [MoveToDevice]) = Some k"
  "\<exists>k. follow code_order 0 (map kind_of [MoveToDevice, Project, ZeroGrad]) = Some k"
  "\<exists>k. follow code_order 0 (map kind_of [MoveToDevice, Project, ZeroGrad, Forward]) = Some k"
  "\<exists>k. follow code_order 0 (map kind_of [MoveToDevice, Project, ZeroGrad, Forward, Criterion]) = Some k"
  "\<exists>k. follow code_order 0
         (map kind_of [MoveToDevice, Project, ZeroGrad, Forward, Criterion, Backward]) = Some k"
  by (simp_all add: code_order_def)

lemma follow_step:
  assumes "follow code_order 0 (map kind_of (history st)) = Some 0"
    and "train_step lib epoch i st dat = (st', err)"
  shows "case err of
           None \<Rightarrow> follow code_order 0 (map kind_of (history st')) = Some 0
         | Some e \<Rightarrow> (\<exists>k. follow code_order 0 (map kind_of (history st')) = Some k)"
proof (cases err)
  case None
  with train_step_result[OF assms(2)] obtain l where
    "history st' = history st @
       [MoveToDevice, Project, ZeroGrad, Forward, Criterion, Backward, OptStep, Accumulate l] @
       (if i mod 2000 = 1999
        then [Report (epoch + 1) (i + 1) (fdiv lib (fadd lib (running_loss st) l) 2000), Reset]
        else [])"
    by auto
  then have "follow code_order 0 (map kind_of (history st')) = Some 0"
    using assms(1) follow_complete_step[of l "i mod 2000 = 1999"]
    by (simp only: map_append follow_append option.case)
  with None show ?thesis by simp
next
  case (Some e)
  with train_step_result[OF assms(2)] have
    "history st' = history st @ [MoveToDevice] \<or>
     history st' = history st @ [MoveToDevice, Project, ZeroGrad] \<or>
     history st' = history st @ [MoveToDevice, Project, ZeroGrad, Forward] \<or>
     history st' = history st @ [MoveToDevice, Project, ZeroGrad, Forward, Criterion] \<or>
     history st' = history st @ [MoveToDevice, Project, ZeroGrad, Forward, Criterion, Backward]"
    by simp
  then have "\<exists>k. follow code_order 0 (map kind_of (history st')) = Some k"
    using assms(1) follow_partial_step
    by (elim disjE) (simp_all only: map_append follow_append option.case)
  with Some show ?thesis by simp
qed

lemma run_follows_code_order:
  fixes lib :: "('w, 'v, 'f) lib"
  shows "\<exists>k. follow code_order 0 (map kind_of (history (fst (train lib trainloader w)))) = Some k"
proof (rule train_invariant
    [where P = "\<lambda>i st. follow code_order 0 (map kind_of (history st)) = Some 0"
       and R = "\<lambda>st. follow code_order 0 (map kind_of (history st)) = Some 0"
       and Q = "\<lambda>st. \<exists>k. follow code_order 0 (map kind_of (history st)) = Some k"])
  fix epoch i and st st' :: "('w, 'f) train_state" and dat err
  assume "follow code_order 0 (map kind_of (history st)) = Some 0"
    and "train_step lib epoch i st dat = (st', err)"
  then show "case err of
           None \<Rightarrow> follow code_order 0 (map kind_of (history st')) = Some 0
         | Some e \<Rightarrow> (\<exists>k. follow code_order 0 (map kind_of (history st')) = Some k)"
    by (rule follow_step)
next
  fix st :: "('w, 'f) train_state"
  assume "follow code_order 0 (map kind_of (history st)) = Some 0"
  then show "follow code_order 0
      (map kind_of (history (emit Reset (st\<lparr>running_loss := fzero lib\<rparr>)))) = Some 0"
    by (simp add: follow_append code_order_def)
next
  fix i and st :: "('w, 'f) train_state"
  assume "follow code_order 0 (map kind_of (history st)) = Some 0"
  then show "follow code_order 0 (map kind_of (history st)) = Some 0" .
next
  show "follow code_order 0
      (map kind_of (history \<lparr>world = w, running_loss = fzero lib, log = []\<rparr>)) = Some 0"
    by (simp add: history_def)
next
  fix st :: "('w, 'f) train_state"
  assume "follow code_order 0 (map kind_of (history st)) = Some 0"
  then show "\<exists>k. follow code_order 0 (map kind_of (history (emit Finished st))) = Some k"
    by (simp add: follow_append code_order_def)
qed

text \<open>
  C2, as the code has it. In every run of \<^verbatim>\<open>train\<close> the operations follow the
  cycle: project the inputs, clear the gradients, compute the model output,
  compute the loss, propagate the gradients, apply one optimizer step, add the
  loss to the running loss. A step that returns has done, in this order and
  between no other operations: move the batch to the device, project, clear,
  forward, loss, backward, optimizer step, accumulate, and then the report and
  the reset if one is due. The projection is not conditional.
\<close>

theorem step_projects_then_clears_gradients:
  fixes lib :: "('w, 'v, 'f) lib"
  shows "(\<exists>k. follow code_order 0 (map kind_of (history (fst (train lib trainloader w)))) = Some k) \<and>
     (train_step lib epoch i st dat = (st', None) \<longrightarrow>
        (\<exists>l rest. history st' = history st @
           [MoveToDevice, Project, ZeroGrad, Forward, Criterion, Backward, OptStep, Accumulate l] @
           rest \<and>
           (rest = [] \<or> (\<exists>v. rest = [Report (epoch + 1) (i + 1) v, Reset]))))"
proof -
  have "\<exists>l rest. history st' = history st @
           [MoveToDevice, Project, ZeroGrad, Forward, Criterion, Backward, OptStep, Accumulate l] @
           rest \<and>
           (rest = [] \<or> (\<exists>v. rest = [Report (epoch + 1) (i + 1) v, Reset]))"
    if "train_step lib epoch i st dat = (st', None)"
    using train_step_result[OF that] by (cases "i mod 2000 = 1999") auto
  with run_follows_code_order[of lib trainloader w] show ?thesis by blast
qed

lemma plain_step:
  "train_step plain_lib 0 0 \<lparr>world = (), running_loss = 0, log = [Reset]\<rparr> (0, 3) =
     (\<lparr>world = (), running_loss = 3,
       log = [Accumulate 3, OptStep, Backward, Criterion, Forward, ZeroGrad, Project,
              MoveToDevice, Reset]\<rparr>, None)"
  by (simp add: train_step_def plain_lib_def emit_def)

theorem step_projects_then_clears_gradients_witness:
  "train_step plain_lib 0 0 \<lparr>world = (), running_loss = 0, log = [Reset]\<rparr> (0, 3) =
     (\<lparr>world = (), running_loss = 3,
       log = [Accumulate 3, OptStep, Backward, Criterion, Forward, ZeroGrad, Project,
              MoveToDevice, Reset]\<rparr>, None) \<and>
   (\<exists>l rest. history \<lparr>world = (), running_loss = 3::rat,
       log = [Accumulate 3, OptStep, Backward, Criterion, Forward, ZeroGrad, Project,
              MoveToDevice, Reset]\<rparr> =
      [Reset, MoveToDevice, Project, ZeroGrad, Forward, Criterion, Backward, OptStep,
       Accumulate l] @ rest)"
  using step_projects_then_clears_gradients
    [of plain_lib short_loader "()" 0 0 "\<lparr>world = (), running_loss = 0, log = [Reset]\<rparr>" "(0, 3)"
        "\<lparr>world = (), running_loss = 3,
          log = [Accumulate 3, OptStep, Backward, Criterion, Forward, ZeroGrad, Project,
                 MoveToDevice, Reset]\<rparr>"]
    plain_step
  by (auto simp: history_def)

text \<open>
  C2 as stated fails: with one batch per epoch the history shows the projection
  before the clearing of the gradients, so the operations do not follow the order
  that starts with the clearing.
\<close>

theorem gradients_not_cleared_before_projection:
  "history (fst (train plain_lib short_loader ())) =
     [Reset, MoveToDevice, Project, ZeroGrad, Forward, Criterion, Backward, OptStep, Accumulate 3,
      Reset, MoveToDevice, Project, ZeroGrad, Forward, Criterion, Backward, OptStep, Accumulate 3,
      Finished] \<and>
   follow spec_order 0 (map kind_of (history (fst (train plain_lib short_loader ())))) = None"
  by code_simp

lemma reports_step:
  assumes "reports_then_reset (history st)"
    and "train_step lib epoch i st dat = (st', err)"
  shows "reports_then_reset (history st')"
proof (cases err)
  case None
  with train_step_result[OF assms(2)] obtain l where
    h: "history st' = history st @
       ([MoveToDevice, Project, ZeroGrad, Forward, Criterion, Backward, OptStep, Accumulate l] @
       (if i mod 2000 = 1999
        then [Report (epoch + 1) (i + 1) (fdiv lib (fadd lib (running_loss st) l) 2000), Reset]
        else []))"
    by auto
  show ?thesis unfolding h reports_then_reset_append[OF assms(1)]
    by (simp add: mod_2000_next)
next
  case (Some e)
  with train_step_result[OF assms(2)] have
    "history st' = history st @ [MoveToDevice] \<or>
     history st' = history st @ [MoveToDevice, Project, ZeroGrad] \<or>
     history st' = history st @ [MoveToDevice, Project, ZeroGrad, Forward] \<or>
     history st' = history st @ [MoveToDevice, Project, ZeroGrad, Forward, Criterion] \<or>
     history st' = history st @ [MoveToDevice, Project, ZeroGrad, Forward, Criterion, Backward]"
    by simp
  then show ?thesis
    using reports_then_reset_append[OF assms(1)] by (elim disjE) simp_all
qed

lemma run_reports_then_reset:
  fixes lib :: "('w, 'v, 'f) lib"
  shows "reports_then_reset (history (fst (train lib trainloader w)))"
proof (rule train_invariant
    [where P = "\<lambda>i st. reports_then_reset (history st)"
       and R = "\<lambda>st. reports_then_reset (history st)"
       and Q = "\<lambda>st. reports_then_reset (history st)"])
  fix epoch i and st st' :: "('w, 'f) train_state" and dat err
  assume "reports_then_reset (history st)" and "train_step lib epoch i st dat = (st', err)"
  then have "reports_then_reset (history st')" by (rule reports_step)
  then show "case err of None \<Rightarrow> reports_then_reset (history st')
                       | Some e \<Rightarrow> reports_then_reset (history st')"
    by (simp split: option.splits)
next
  fix st :: "('w, 'f) train_state"
  assume "reports_then_reset (history st)"
  then show "reports_then_reset (history (emit Reset (st\<lparr>running_loss := fzero lib\<rparr>)))"
    by (simp add: reports_then_reset_append)
next
  fix i and st :: "('w, 'f) train_state"
  assume "reports_then_reset (history st)"
  then show "reports_then_reset (history st)" .
next
  show "reports_then_reset (history \<lparr>world = w, running_loss = fzero lib, log = []\<rparr>)"
    by (simp add: history_def)
next
  fix st :: "('w, 'f) train_state"
  assume "reports_then_reset (history st)"
  then show "reports_then_reset (history (emit Finished st))"
    by (simp add: reports_then_reset_append)
qed

text \<open>
  The run of the example library over 2001 batches per epoch, in closed form.
\<close>

lemma plain_train_step:
  "train_step plain_lib epoch i st (a, l) =
     ((if i mod 2000 = 1999
       then st\<lparr>running_loss := 0,
               log := Reset # Report (epoch + 1) (i + 1) ((running_loss st + of_nat l) / 2000) #
                      Accumulate (of_nat l) # OptStep # Backward # Criterion # Forward #
                      ZeroGrad # Project # MoveToDevice # log st\<rparr>
       else st\<lparr>running_loss := running_loss st + of_nat l,
               log := Accumulate (of_nat l) # OptStep # Backward # Criterion # Forward #
                      ZeroGrad # Project # MoveToDevice # log st\<rparr>), None)"
  by (simp add: train_step_def plain_lib_def emit_def)

lemma plain_quiet_steps:
  "i + m \<le> 1999 \<Longrightarrow>
   steps_loop plain_lib epoch i st (replicate m (0, 0) @ rest) =
   steps_loop plain_lib epoch (i + m)
     (st\<lparr>log := concat (replicate m [Accumulate 0, OptStep, Backward, Criterion, Forward,
                                       ZeroGrad, Project, MoveToDevice]) @ log st\<rparr>) rest"
proof (induction m arbitrary: i st)
  case 0
  then show ?case by simp
next
  case (Suc m)
  have i: "i mod 2000 \<noteq> 1999" using Suc.prems by simp
  have c: "concat (replicate (Suc m) xs) = concat (replicate m xs) @ xs" for xs :: "rat step_event list"
    by (induction m) simp_all
  have "Suc i + m \<le> 1999" using Suc.prems by simp
  from Suc.IH[OF this] show ?case
    unfolding c using i by (simp add: plain_train_step)
qed

lemma plain_long_epoch:
  "steps_loop plain_lib epoch 0 st (long_loader epoch) =
     (st\<lparr>running_loss := 2001,
         log := [Accumulate 2001, OptStep, Backward, Criterion, Forward, ZeroGrad, Project,
                 MoveToDevice] @
                Reset # Report (epoch + 1) 2000 (running_loss st / 2000) #
                [Accumulate 0, OptStep, Backward, Criterion, Forward, ZeroGrad, Project,
                 MoveToDevice] @
                concat (replicate 1999 [Accumulate 0, OptStep, Backward, Criterion, Forward,
                                        ZeroGrad, Project, MoveToDevice]) @ log st\<rparr>, None)"
proof -
  have "replicate 2000 (0::nat, 0::nat) = replicate (Suc 1999) (0, 0)" by simp
  also have "\<dots> = replicate 1999 (0, 0) @ [(0, 0)]"
    by (simp only: replicate_Suc replicate_append_same)
  finally have l: "long_loader epoch = replicate 1999 (0, 0) @ [(0, 0), (0, 2001)]"
    by (simp add: long_loader_def)
  have q: "(0::nat) + 1999 \<le> 1999" by simp
  show ?thesis
    unfolding l plain_quiet_steps[OF q]
    by (simp add: plain_train_step)
qed

lemma plain_long_history:
  "history (fst (train plain_lib long_loader ())) =
     Reset #
     concat (replicate 1999 [MoveToDevice, Project, ZeroGrad, Forward, Criterion, Backward,
                             OptStep, Accumulate 0]) @
     [MoveToDevice, Project, ZeroGrad, Forward, Criterion, Backward, OptStep, Accumulate 0,
      Report 1 2000 0, Reset,
      MoveToDevice, Project, ZeroGrad, Forward, Criterion, Backward, OptStep, Accumulate 2001,
      Reset] @
     concat (replicate 1999 [MoveToDevice, Project, ZeroGrad, Forward, Criterion, Backward,
                             OptStep, Accumulate 0]) @
     [MoveToDevice, Project, ZeroGrad, Forward, Criterion, Backward, OptStep, Accumulate 0,
      Report 2 2000 0, Reset,
      MoveToDevice, Project, ZeroGrad, Forward, Criterion, Backward, OptStep, Accumulate 2001,
      Finished]"
proof -
  have f: "fzero plain_lib = 0" by (simp add: plain_lib_def)
  have r: "rev (concat (replicate n xs)) = concat (replicate n (rev xs))" for n and xs :: "rat step_event list"
    by (simp add: rev_concat)
  show ?thesis
    by (simp add: train_def plain_long_epoch f emit_def history_def r)
qed

lemma plain_floats:
  "fzero plain_lib = 0" "fadd plain_lib a b = a + b" "fdiv plain_lib a n = a / of_int n"
  by (simp_all add: plain_lib_def)

lemma quiet_windows:
  "window_means plain_lib is_report full (s, n)
     (concat (replicate m [MoveToDevice, Project, ZeroGrad, Forward, Criterion, Backward,
                           OptStep, Accumulate 0]) @ rest) =
   window_means plain_lib is_report full (s, n + m) rest"
  by (induction m arbitrary: n) (simp_all add: plain_floats)

lemma quiet_reports:
  "filter is_report
     (concat (replicate m [MoveToDevice, Project, ZeroGrad, Forward, Criterion, Backward,
                           OptStep, Accumulate (0::rat)])) = []"
  by (induction m) simp_all

text \<open>
  C3. In every run of \<^verbatim>\<open>train\<close> every progress report carries a step number
  that is a positive multiple of 2000 and is followed at once by the reset of the
  accumulator. For every epoch and every step that returns: when the number of
  the step, \<open>i + 1\<close> for the index \<open>i\<close> that \<^verbatim>\<open>enumerate\<close> counts from 0, is a
  multiple of 2000, the step reports and then resets, and the accumulator is
  \<open>0.0\<close> after it; otherwise the step reports nothing and the accumulator holds
  the sum.
\<close>

theorem report_only_at_multiples_then_reset:
  fixes lib :: "('w, 'v, 'f) lib"
  shows "reports_then_reset (history (fst (train lib trainloader w))) \<and>
     (train_step lib epoch i st dat = (st', None) \<longrightarrow>
        (\<exists>l. history st' = history st @
           [MoveToDevice, Project, ZeroGrad, Forward, Criterion, Backward, OptStep, Accumulate l] @
           (if (i + 1) mod 2000 = 0
            then [Report (epoch + 1) (i + 1) (fdiv lib (fadd lib (running_loss st) l) 2000), Reset]
            else []) \<and>
           running_loss st' =
             (if (i + 1) mod 2000 = 0 then fzero lib else fadd lib (running_loss st) l)))"
proof -
  have eq: "((i + 1) mod 2000 = 0) = (i mod 2000 = 1999)" by (simp add: mod_Suc)
  have "\<exists>l. history st' = history st @
           [MoveToDevice, Project, ZeroGrad, Forward, Criterion, Backward, OptStep, Accumulate l] @
           (if (i + 1) mod 2000 = 0
            then [Report (epoch + 1) (i + 1) (fdiv lib (fadd lib (running_loss st) l) 2000), Reset]
            else []) \<and>
           running_loss st' =
             (if (i + 1) mod 2000 = 0 then fzero lib else fadd lib (running_loss st) l)"
    if "train_step lib epoch i st dat = (st', None)"
    using train_step_result[OF that] unfolding eq by simp
  with run_reports_then_reset[of lib trainloader w] show ?thesis by blast
qed

lemma plain_report_step:
  "train_step plain_lib 0 1999 \<lparr>world = (), running_loss = 5, log = []\<rparr> (0, 3) =
     (\<lparr>world = (), running_loss = 0,
       log = [Reset, Report 1 2000 (1 / 250), Accumulate 3, OptStep, Backward, Criterion, Forward,
              ZeroGrad, Project, MoveToDevice]\<rparr>, None)"
  by (simp add: train_step_def plain_lib_def emit_def)

theorem report_only_at_multiples_then_reset_witness:
  "train_step plain_lib 0 1999 \<lparr>world = (), running_loss = 5, log = []\<rparr> (0, 3) =
     (\<lparr>world = (), running_loss = 0,
       log = [Reset, Report 1 2000 (1 / 250), Accumulate 3, OptStep, Backward, Criterion, Forward,
              ZeroGrad, Project, MoveToDevice]\<rparr>, None) \<and>
   (\<exists>l. history \<lparr>world = (), running_loss = 0::rat,
       log = [Reset, Report 1 2000 (1 / 250), Accumulate 3, OptStep, Backward, Criterion, Forward,
              ZeroGrad, Project, MoveToDevice]\<rparr> =
      [MoveToDevice, Project, ZeroGrad, Forward, Criterion, Backward, OptStep, Accumulate l,
       Report 1 2000 (fdiv plain_lib (fadd plain_lib 5 l) 2000), Reset]) \<and>
   filter is_report (history (fst (train plain_lib long_loader ()))) =
     [Report 1 2000 0, Report 2 2000 0] \<and>
   reports_then_reset (history (fst (train plain_lib long_loader ())))"
proof -
  have reports: "filter is_report (history (fst (train plain_lib long_loader ()))) =
     [Report 1 2000 0, Report 2 2000 0]"
    unfolding plain_long_history by (simp add: quiet_reports)
  show ?thesis
    using report_only_at_multiples_then_reset
      [of plain_lib long_loader "()" 0 1999 "\<lparr>world = (), running_loss = 5, log = []\<rparr>" "(0, 3)"
          "\<lparr>world = (), running_loss = 0,
            log = [Reset, Report 1 2000 (1 / 250), Accumulate 3, OptStep, Backward, Criterion, Forward,
                   ZeroGrad, Project, MoveToDevice]\<rparr>"]
      plain_report_step reports
    by (auto simp: history_def)
qed

lemma windows_step:
  fixes lib :: "('w, 'v, 'f) lib"
  assumes m: "window_means lib is_reset (\<lambda>n. n = 2000) (fzero lib, 0) (history st)"
    and a: "window_after lib is_reset (fzero lib, 0) (history st) = (running_loss st, i mod 2000)"
    and s: "train_step lib epoch i st dat = (st', err)"
  shows "window_means lib is_reset (\<lambda>n. n = 2000) (fzero lib, 0) (history st') \<and>
         (err = None \<longrightarrow>
            window_after lib is_reset (fzero lib, 0) (history st') = (running_loss st', Suc i mod 2000))"
proof (cases err)
  case None
  with train_step_result[OF s] obtain l where
    h: "history st' = history st @
       ([MoveToDevice, Project, ZeroGrad, Forward, Criterion, Backward, OptStep, Accumulate l] @
       (if i mod 2000 = 1999
        then [Report (epoch + 1) (i + 1) (fdiv lib (fadd lib (running_loss st) l) 2000), Reset]
        else []))"
    and r: "running_loss st' = (if i mod 2000 = 1999 then fzero lib else fadd lib (running_loss st) l)"
    by auto
  show ?thesis
  proof (cases "i mod 2000 = 1999")
    case True
    then show ?thesis
      using m unfolding h r window_means_append window_after_append a
      by (simp add: mod_2000_next)
  next
    case False
    then show ?thesis
      using m unfolding h r window_means_append window_after_append a
      by (simp add: mod_2000_next)
  qed
next
  case (Some e)
  with train_step_result[OF s] have
    "history st' = history st @ [MoveToDevice] \<or>
     history st' = history st @ [MoveToDevice, Project, ZeroGrad] \<or>
     history st' = history st @ [MoveToDevice, Project, ZeroGrad, Forward] \<or>
     history st' = history st @ [MoveToDevice, Project, ZeroGrad, Forward, Criterion] \<or>
     history st' = history st @ [MoveToDevice, Project, ZeroGrad, Forward, Criterion, Backward]"
    by simp
  then have "window_means lib is_reset (\<lambda>n. n = 2000) (fzero lib, 0) (history st')"
    using m by (elim disjE) (simp_all add: window_means_append a)
  with Some show ?thesis by simp
qed

text \<open>
  C6, as the code has it. Every progress report of every run of \<^verbatim>\<open>train\<close> shows
  the float sum of the losses accumulated since the accumulator was last reset,
  that is since the previous report of the same epoch or since the start of the
  epoch, divided by their count; and that count is 2000. (The losses of the
  steps after the last report of an epoch are dropped by the reset that starts
  the next epoch.)
\<close>

theorem report_is_mean_since_reset:
  fixes lib :: "('w, 'v, 'f) lib"
  shows "window_means lib is_reset (\<lambda>n. n = 2000) (fzero lib, 0)
           (history (fst (train lib trainloader w)))"
proof (rule train_invariant
    [where P = "\<lambda>i st. window_means lib is_reset (\<lambda>n. n = 2000) (fzero lib, 0) (history st) \<and>
                  window_after lib is_reset (fzero lib, 0) (history st) = (running_loss st, i mod 2000)"
       and R = "\<lambda>st. window_means lib is_reset (\<lambda>n. n = 2000) (fzero lib, 0) (history st)"
       and Q = "\<lambda>st. window_means lib is_reset (\<lambda>n. n = 2000) (fzero lib, 0) (history st)"])
  fix epoch i and st st' :: "('w, 'f) train_state" and dat err
  assume "window_means lib is_reset (\<lambda>n. n = 2000) (fzero lib, 0) (history st) \<and>
          window_after lib is_reset (fzero lib, 0) (history st) = (running_loss st, i mod 2000)"
    and "train_step lib epoch i st dat = (st', err)"
  then have "window_means lib is_reset (\<lambda>n. n = 2000) (fzero lib, 0) (history st') \<and>
         (err = None \<longrightarrow>
            window_after lib is_reset (fzero lib, 0) (history st') = (running_loss st', Suc i mod 2000))"
    using windows_step by blast
  then show "case err of
       None \<Rightarrow> window_means lib is_reset (\<lambda>n. n = 2000) (fzero lib, 0) (history st') \<and>
              window_after lib is_reset (fzero lib, 0) (history st') = (running_loss st', Suc i mod 2000)
     | Some e \<Rightarrow> window_means lib is_reset (\<lambda>n. n = 2000) (fzero lib, 0) (history st')"
    by (simp split: option.splits)
next
  fix st :: "('w, 'f) train_state"
  assume "window_means lib is_reset (\<lambda>n. n = 2000) (fzero lib, 0) (history st)"
  then show "window_means lib is_reset (\<lambda>n. n = 2000) (fzero lib, 0)
               (history (emit Reset (st\<lparr>running_loss := fzero lib\<rparr>))) \<and>
             window_after lib is_reset (fzero lib, 0)
               (history (emit Reset (st\<lparr>running_loss := fzero lib\<rparr>))) =
             (running_loss (emit Reset (st\<lparr>running_loss := fzero lib\<rparr>)), 0 mod 2000)"
    by (cases "window_after lib is_reset (fzero lib, 0) (history st)")
       (simp add: window_means_append window_after_append)
next
  fix i and st :: "('w, 'f) train_state"
  assume "window_means lib is_reset (\<lambda>n. n = 2000) (fzero lib, 0) (history st) \<and>
          window_after lib is_reset (fzero lib, 0) (history st) = (running_loss st, i mod 2000)"
  then show "window_means lib is_reset (\<lambda>n. n = 2000) (fzero lib, 0) (history st)" by simp
next
  show "window_means lib is_reset (\<lambda>n. n = 2000) (fzero lib, 0)
          (history \<lparr>world = w, running_loss = fzero lib, log = []\<rparr>)"
    by (simp add: history_def)
next
  fix st :: "('w, 'f) train_state"
  assume "window_means lib is_reset (\<lambda>n. n = 2000) (fzero lib, 0) (history st)"
  then show "window_means lib is_reset (\<lambda>n. n = 2000) (fzero lib, 0) (history (emit Finished st))"
    by (simp add: window_means_append)
qed

theorem report_is_mean_since_reset_witness:
  "filter is_report (history (fst (train plain_lib long_loader ()))) =
     [Report 1 2000 0, Report 2 2000 0] \<and>
   window_means plain_lib is_reset (\<lambda>n. n = 2000) (fzero plain_lib, 0)
     (history (fst (train plain_lib long_loader ())))"
proof -
  have "filter is_report (history (fst (train plain_lib long_loader ()))) =
     [Report 1 2000 0, Report 2 2000 0]"
    unfolding plain_long_history by (simp add: quiet_reports)
  with report_is_mean_since_reset[of plain_lib long_loader "()"] show ?thesis by simp
qed

text \<open>
  C6 as stated fails: with 2001 batches per epoch the first report of the second
  epoch shows 0, the mean of the 2000 losses of that epoch, while the losses since
  the previous report are 2001 in number and have the mean 1, the last loss of
  the first epoch being 2001.
\<close>

theorem report_after_epoch_start_drops_earlier_losses:
  "filter is_report (history (fst (train plain_lib long_loader ()))) =
     [Report 1 2000 0, Report 2 2000 0] \<and>
   \<not> window_means plain_lib is_report (\<lambda>n. True) (fzero plain_lib, 0)
       (history (fst (train plain_lib long_loader ())))"
  unfolding plain_long_history
  by (simp add: quiet_windows quiet_reports plain_floats)

end
